theory Spec2Isabelle
  imports Main "HOL-Library.Word"
begin

unbundle bit_operations_syntax

section \<open>The slab allocator of \<^verbatim>\<open>src/backend/utils/mmgr/slab.c\<close>\<close>

text \<open>
  A shallow embedding of the slab memory context.  The conventions:

  \<^item> \<^bold>\<open>Memory\<close> is block structured.  A pointer is a pair of the base address of
    the object \<^verbatim>\<open>malloc\<close> returned and a byte offset into it; pointer arithmetic
    changes the offset only, and the difference of two pointers into different objects
    has no meaning.  The heap maps the base address of every live \<^verbatim>\<open>SlabContext\<close>
    and of every live \<^verbatim>\<open>SlabBlock\<close> to its contents; \<^verbatim>\<open>free\<close> removes the entry.
  \<^item> \<^verbatim>\<open>Size\<close> is a 64-bit word, so its arithmetic wraps as in C.  The C \<^verbatim>\<open>int\<close>
    fields are modelled by \<^typ>\<open>int\<close>; the invariant \<open>slab_inv\<close> below bounds every one
    of them but \<^verbatim>\<open>nblocks\<close> by \<^verbatim>\<open>chunksPerBlock\<close>, which is below \<open>2 ^ 31\<close>.  The
    conversions between the two (\<^verbatim>\<open>Size\<close> to \<^verbatim>\<open>int\<close> on assignment, \<^verbatim>\<open>int\<close> to
    \<^verbatim>\<open>Size\<close> in mixed arithmetic) are written out.
  \<^item> The platform is an LP64 one: \<^verbatim>\<open>sizeof(int) = 4\<close>, \<^verbatim>\<open>sizeof(MemoryChunk) = 8\<close>,
    \<^verbatim>\<open>sizeof(SlabBlock) = 32\<close> (two list pointers, two ints, one pointer) and
    \<^verbatim>\<open>MAXIMUM_ALIGNOF = 8\<close>.
  \<^item> \<^verbatim>\<open>elog(ERROR, ...)\<close> leaves the function at once; the result \<open>Raised e h\<close> holds
    the heap as it is at that moment.  A step the C standard gives no meaning (reading
    through a pointer to no live object, indexing \<^verbatim>\<open>freelist\<close> out of bounds, the head of
    an empty list, dividing by zero) ends the call with \<open>Undefined\<close>.
  \<^item> \<^verbatim>\<open>Assert\<close> is compiled out of a production build and so are the blocks under
    \<^verbatim>\<open>MEMORY_CONTEXT_CHECKING\<close>, \<^verbatim>\<open>CLOBBER_FREED_MEMORY\<close> and
    \<^verbatim>\<open>RANDOMIZE_ALLOCATED_MEMORY\<close>; the model is that of the production build.  The
    free-list walk of \<^verbatim>\<open>SlabCheck\<close> is modelled on its own, as the code's reading of
    "traversing the free list".
  \<^item> The result of \<^verbatim>\<open>malloc\<close> is an argument of the function that calls it:
    \<open>None\<close> for \<^verbatim>\<open>NULL\<close>, \<open>Some a\<close> for a new object at base address \<open>a\<close>.
\<close>

subsection \<open>Machine types and platform constants\<close>

type_synonym Size = "64 word"

definition sizeof_int :: Size where
  "sizeof_int = 4"

definition sizeof_MemoryChunk :: Size where
  "sizeof_MemoryChunk = 8"

definition Slab_CHUNKHDRSZ :: Size where
  "Slab_CHUNKHDRSZ = sizeof_MemoryChunk"

definition sizeof_SlabBlock :: Size where
  "sizeof_SlabBlock = 32"

definition MAXIMUM_ALIGNOF :: Size where
  "MAXIMUM_ALIGNOF = 8"

text \<open>\<^verbatim>\<open>MAXALIGN(LEN)\<close> is \<^verbatim>\<open>TYPEALIGN(MAXIMUM_ALIGNOF, LEN)\<close>:
  \<^verbatim>\<open>((uintptr_t) (LEN) + (ALIGNVAL - 1)) & ~((uintptr_t) (ALIGNVAL - 1))\<close>.\<close>

definition MAXALIGN :: "Size \<Rightarrow> Size" where
  "MAXALIGN len = (len + (MAXIMUM_ALIGNOF - 1)) AND NOT (MAXIMUM_ALIGNOF - 1)"

text \<open>The largest size a chunk header can record (\<^verbatim>\<open>0x3FFFFFFF\<close>).\<close>

definition MEMORYCHUNK_MAX_VALUE :: Size where
  "MEMORYCHUNK_MAX_VALUE = 1073741823"

text \<open>The assignment of a \<^verbatim>\<open>Size\<close> to an \<^verbatim>\<open>int\<close> keeps the low 32 bits, read as a
  signed number.\<close>

definition Size_to_int :: "Size \<Rightarrow> int" where
  "Size_to_int s = sint (ucast s :: 32 word)"

subsection \<open>Pointers, chunk headers, blocks, the context\<close>

datatype pointer = Ptr (ptr_base: nat) (ptr_offs: Size)

datatype MemoryContextMethodID = MCTX_ASET_ID | MCTX_GENERATION_ID | MCTX_SLAB_ID

text \<open>Modelled from the spec: the chunk header service of
  \<^verbatim>\<open>utils/memutils_memorychunk.h\<close>, which is not among the sources.  The spec has it
  pack the triple of the block's base, the aligned chunk size and the context tag into
  the fixed-size header of a chunk, and recover the block from it.\<close>

record MemoryChunk =
  hdr_block :: nat
  hdr_size :: Size
  hdr_methodid :: MemoryContextMethodID

definition MemoryChunkSetHdrMask :: "nat \<Rightarrow> Size \<Rightarrow> MemoryContextMethodID \<Rightarrow> MemoryChunk" where
  "MemoryChunkSetHdrMask block sz methodid =
     \<lparr>hdr_block = block, hdr_size = sz, hdr_methodid = methodid\<rparr>"

definition MemoryChunkGetBlock :: "MemoryChunk \<Rightarrow> nat" where
  "MemoryChunkGetBlock hdr = hdr_block hdr"

text \<open>A block: the fields of \<^verbatim>\<open>struct SlabBlock\<close> and the chunk area behind them.  The
  chunk area is read and written at two types only: a \<^verbatim>\<open>MemoryChunk\<close> header at the
  start of a chunk and the \<^verbatim>\<open>int32\<close> link at the start of its payload; each is a map
  from the byte offset in the block to the value last written there (a fresh block holds
  nothing).  The list node of the block is its membership in the lists of the context.\<close>

record SlabBlock =
  nfree :: int
  firstFreeChunk :: int
  block_slab :: nat
  chunk_hdr :: "Size \<rightharpoonup> MemoryChunk"
  chunk_link :: "Size \<rightharpoonup> int"

text \<open>The context: \<^verbatim>\<open>header.mem_allocated\<close> and the fields of \<^verbatim>\<open>struct SlabContext\<close>
  the operations read (\<^verbatim>\<open>headerSize\<close>, which only \<^verbatim>\<open>SlabStats\<close> reads, is left out).
  \<^verbatim>\<open>freelist\<close> is the array of list heads; each list is the list of the base addresses
  of the blocks linked into it, head first.\<close>

record SlabContext =
  mem_allocated :: Size
  chunkSize :: Size
  fullChunkSize :: Size
  blockSize :: Size
  chunksPerBlock :: int
  minFreeChunks :: int
  nblocks :: int
  freelist :: "nat list list"

record heap =
  contexts :: "nat \<rightharpoonup> SlabContext"
  blocks :: "nat \<rightharpoonup> SlabBlock"

definition empty_heap :: heap where
  "empty_heap = \<lparr>contexts = Map.empty, blocks = Map.empty\<rparr>"

subsection \<open>Errors\<close>

datatype error =
  BlockGeometryInvalid | HeaderAllocFailed | UnexpectedAllocChunkSize | ReallocUnsupported

datatype failure = Raised error heap | Undefined

definition req :: "'a option \<Rightarrow> ('a \<Rightarrow> failure + 'b) \<Rightarrow> failure + 'b" where
  "req m f = (case m of None \<Rightarrow> Inl Undefined | Some x \<Rightarrow> f x)"

subsection \<open>The macros of \<^verbatim>\<open>slab.c\<close>\<close>

definition MemoryChunkGetPointer :: "pointer \<Rightarrow> pointer" where
  "MemoryChunkGetPointer chunk = Ptr (ptr_base chunk) (ptr_offs chunk + sizeof_MemoryChunk)"

definition PointerGetMemoryChunk :: "pointer \<Rightarrow> pointer" where
  "PointerGetMemoryChunk p = Ptr (ptr_base p) (ptr_offs p - sizeof_MemoryChunk)"

definition SlabBlockGetChunk :: "SlabContext \<Rightarrow> nat \<Rightarrow> int \<Rightarrow> pointer" where
  "SlabBlockGetChunk slab block idx =
     Ptr block (sizeof_SlabBlock + word_of_int idx * fullChunkSize slab)"

definition SlabBlockStart :: "nat \<Rightarrow> pointer" where
  "SlabBlockStart block = Ptr block sizeof_SlabBlock"

definition SlabChunkIndex :: "SlabContext \<Rightarrow> nat \<Rightarrow> pointer \<Rightarrow> Size option" where
  "SlabChunkIndex slab block chunk =
     (if ptr_base chunk \<noteq> ptr_base (SlabBlockStart block) \<or> fullChunkSize slab = 0 then None
      else Some ((ptr_offs chunk - ptr_offs (SlabBlockStart block)) div fullChunkSize slab))"

subsection \<open>The lists of \<^verbatim>\<open>lib/ilist.h\<close>\<close>

text \<open>Modelled from the spec: the doubly-linked intrusive lists of \<^verbatim>\<open>lib/ilist.h\<close>, which
  is not among the sources.  A list is the sequence of its nodes from the head; a node
  is the base address of the block that embeds it.  \<^verbatim>\<open>dlist_delete\<close> gets the node only
  and unlinks it from the list it is in, whichever that is.\<close>

definition dlist_init :: "nat list" where
  "dlist_init = []"

definition dlist_is_empty :: "nat list \<Rightarrow> bool" where
  "dlist_is_empty head = (head = [])"

definition dlist_push_head :: "nat list \<Rightarrow> nat \<Rightarrow> nat list" where
  "dlist_push_head head node = node # head"

definition dlist_head_element :: "nat list \<Rightarrow> nat option" where
  "dlist_head_element head = (case head of [] \<Rightarrow> None | node # _ \<Rightarrow> Some node)"

definition dlist_delete :: "nat \<Rightarrow> nat list list \<Rightarrow> nat list list" where
  "dlist_delete node heads = map (removeAll node) heads"

text \<open>\<^verbatim>\<open>slab->freelist[i]\<close>, read and written; outside the array there is nothing.\<close>

definition freelist_at :: "nat list list \<Rightarrow> int \<Rightarrow> nat list option" where
  "freelist_at heads i =
     (if 0 \<le> i \<and> i < int (length heads) then Some (heads ! nat i) else None)"

definition freelist_push :: "nat list list \<Rightarrow> int \<Rightarrow> nat \<Rightarrow> nat list list option" where
  "freelist_push heads i node =
     (case freelist_at heads i of
        None \<Rightarrow> None
      | Some head \<Rightarrow> Some (heads[nat i := dlist_push_head head node]))"

subsection \<open>\<^verbatim>\<open>SlabContextCreate\<close>\<close>

definition SlabContextCreate :: "heap \<Rightarrow> nat option \<Rightarrow> Size \<Rightarrow> Size \<Rightarrow> failure + (nat \<times> heap)" where
  "SlabContextCreate h sys blockSize0 chunkSize0 =
     (let chunkSize1 = (if chunkSize0 < sizeof_int then sizeof_int else chunkSize0);
          fullChunkSize1 = Slab_CHUNKHDRSZ + MAXALIGN chunkSize1
      in if blockSize0 < fullChunkSize1 + sizeof_SlabBlock
         then Inl (Raised BlockGeometryInvalid h)
         else if fullChunkSize1 = 0 then Inl Undefined
         else
           let chunksPerBlock1 =
                 Size_to_int ((blockSize0 - sizeof_SlabBlock) div fullChunkSize1)
           in case sys of
                None \<Rightarrow> Inl (Raised HeaderAllocFailed h)
              | Some a \<Rightarrow>
                  Inr (a, h\<lparr>contexts := (contexts h)(a \<mapsto>
                         \<lparr>mem_allocated = 0,
                          chunkSize = chunkSize1,
                          fullChunkSize = fullChunkSize1,
                          blockSize = blockSize0,
                          chunksPerBlock = chunksPerBlock1,
                          minFreeChunks = 0,
                          nblocks = 0,
                          freelist = replicate (nat (chunksPerBlock1 + 1)) dlist_init\<rparr>)\<rparr>))"

subsection \<open>\<^verbatim>\<open>SlabAlloc\<close>\<close>

text \<open>The loop that threads the free list through a new block (lines 326 to 330).\<close>

function SlabAlloc_init_chunks :: "SlabContext \<Rightarrow> nat \<Rightarrow> SlabBlock \<Rightarrow> int \<Rightarrow> SlabBlock" where
  "SlabAlloc_init_chunks slab block blk idx =
     (if idx < chunksPerBlock slab
      then SlabAlloc_init_chunks slab block
             (blk\<lparr>chunk_link := (chunk_link blk)
                (ptr_offs (MemoryChunkGetPointer (SlabBlockGetChunk slab block idx)) \<mapsto> idx + 1)\<rparr>)
             (idx + 1)
      else blk)"
  by pat_completeness auto
termination
  by (relation "measure (\<lambda>(slab, block, blk, idx). nat (chunksPerBlock slab - idx))") auto

text \<open>The new block (lines 313 to 344), \<open>block\<close> being what \<^verbatim>\<open>malloc\<close> returned.\<close>

definition SlabAlloc_new_block :: "heap \<Rightarrow> nat \<Rightarrow> SlabContext \<Rightarrow> nat \<Rightarrow> failure + heap" where
  "SlabAlloc_new_block h context slab block =
     (let blk = SlabAlloc_init_chunks slab block
                  \<lparr>nfree = chunksPerBlock slab, firstFreeChunk = 0, block_slab = context,
                   chunk_hdr = Map.empty, chunk_link = Map.empty\<rparr> 0
      in req (freelist_push (freelist slab) (chunksPerBlock slab) block) (\<lambda>heads.
           Inr (h\<lparr>contexts := (contexts h)(context \<mapsto>
                     slab\<lparr>freelist := heads,
                          minFreeChunks := chunksPerBlock slab,
                          nblocks := nblocks slab + 1,
                          mem_allocated := mem_allocated slab + blockSize slab\<rparr>),
                  blocks := (blocks h)(block \<mapsto> blk)\<rparr>)))"

text \<open>The search for the first non-empty list (lines 400 to 408).\<close>

function SlabAlloc_rescan :: "SlabContext \<Rightarrow> int \<Rightarrow> SlabContext option" where
  "SlabAlloc_rescan slab idx =
     (if idx \<le> chunksPerBlock slab
      then (case freelist_at (freelist slab) idx of
              None \<Rightarrow> None
            | Some head \<Rightarrow>
                if dlist_is_empty head then SlabAlloc_rescan slab (idx + 1)
                else Some (slab\<lparr>minFreeChunks := idx\<rparr>))
      else Some slab)"
  by pat_completeness auto
termination
  by (relation "measure (\<lambda>(slab, idx). nat (chunksPerBlock slab + 1 - idx))") auto

text \<open>Lines 398 to 412: the update of \<^verbatim>\<open>minFreeChunks\<close> that ends an allocation.\<close>

definition SlabAlloc_update_min :: "SlabContext \<Rightarrow> SlabContext option" where
  "SlabAlloc_update_min slab =
     (case (if minFreeChunks slab = 0 then SlabAlloc_rescan slab 1 else Some slab) of
        None \<Rightarrow> None
      | Some slab1 \<Rightarrow>
          Some (if minFreeChunks slab1 = chunksPerBlock slab1
                then slab1\<lparr>minFreeChunks := 0\<rparr> else slab1))"

text \<open>Lines 347 to 438: take the first free chunk of the head block of
  \<^verbatim>\<open>freelist[minFreeChunks]\<close>.\<close>

definition SlabAlloc_take :: "heap \<Rightarrow> nat \<Rightarrow> failure + (pointer option \<times> heap)" where
  "SlabAlloc_take h context =
     req (contexts h context) (\<lambda>slab.
     req (freelist_at (freelist slab) (minFreeChunks slab)) (\<lambda>head.
     req (dlist_head_element head) (\<lambda>block.
     req (blocks h block) (\<lambda>blk.
       let idx = firstFreeChunk blk;
           chunk = SlabBlockGetChunk slab block idx
       in req (chunk_link blk (ptr_offs (MemoryChunkGetPointer chunk))) (\<lambda>next_free.
          let blk1 = blk\<lparr>nfree := nfree blk - 1\<rparr>;
              slab1 = slab\<lparr>minFreeChunks := nfree blk1\<rparr>;
              blk2 = blk1\<lparr>firstFreeChunk := next_free\<rparr>
          in req (freelist_push (dlist_delete block (freelist slab1)) (nfree blk2) block) (\<lambda>heads.
             req (SlabAlloc_update_min (slab1\<lparr>freelist := heads\<rparr>)) (\<lambda>slab2.
               let blk3 = blk2\<lparr>chunk_hdr := (chunk_hdr blk2)(ptr_offs chunk \<mapsto>
                            MemoryChunkSetHdrMask block (MAXALIGN (chunkSize slab2)) MCTX_SLAB_ID)\<rparr>
               in Inr (Some (MemoryChunkGetPointer chunk),
                       h\<lparr>contexts := (contexts h)(context \<mapsto> slab2),
                         blocks := (blocks h)(block \<mapsto> blk3)\<rparr>))))))))"

definition SlabAlloc :: "heap \<Rightarrow> nat \<Rightarrow> Size \<Rightarrow> nat option \<Rightarrow> failure + (pointer option \<times> heap)" where
  "SlabAlloc h context sz sys =
     req (contexts h context) (\<lambda>slab.
       if sz \<noteq> chunkSize slab then Inl (Raised UnexpectedAllocChunkSize h)
       else if minFreeChunks slab = 0 then
         (case sys of
            None \<Rightarrow> Inr (None, h)
          | Some block \<Rightarrow>
              (case SlabAlloc_new_block h context slab block of
                 Inl f \<Rightarrow> Inl f
               | Inr h1 \<Rightarrow> SlabAlloc_take h1 context))
       else SlabAlloc_take h context)"

subsection \<open>\<^verbatim>\<open>SlabFree\<close>\<close>

text \<open>Reading a chunk header and writing the link of a payload through a pointer.\<close>

definition load_hdr :: "heap \<Rightarrow> pointer \<Rightarrow> MemoryChunk option" where
  "load_hdr h chunk =
     (case blocks h (ptr_base chunk) of
        None \<Rightarrow> None
      | Some blk \<Rightarrow> chunk_hdr blk (ptr_offs chunk))"

definition store_int32 :: "heap \<Rightarrow> pointer \<Rightarrow> int \<Rightarrow> heap option" where
  "store_int32 h p v =
     (case blocks h (ptr_base p) of
        None \<Rightarrow> None
      | Some blk \<Rightarrow>
          Some (h\<lparr>blocks := (blocks h)(ptr_base p \<mapsto>
                  blk\<lparr>chunk_link := (chunk_link blk)(ptr_offs p \<mapsto> v)\<rparr>)\<rparr>))"

text \<open>\<^verbatim>\<open>free(block)\<close> of the system allocator.\<close>

definition sys_free :: "heap \<Rightarrow> nat \<Rightarrow> heap option" where
  "sys_free h block =
     (if block \<in> dom (blocks h) then Some (h\<lparr>blocks := (blocks h)(block := None)\<rparr>) else None)"

text \<open>Lines 493 to 504, \<open>nfree1\<close> being \<^verbatim>\<open>block->nfree\<close> after its increment and
  \<open>slab\<close> the context after \<^verbatim>\<open>dlist_delete\<close>.\<close>

definition SlabFree_update_min :: "SlabContext \<Rightarrow> int \<Rightarrow> SlabContext option" where
  "SlabFree_update_min slab nfree1 =
     (if minFreeChunks slab = nfree1 - 1
      then (case freelist_at (freelist slab) (minFreeChunks slab) of
              None \<Rightarrow> None
            | Some head \<Rightarrow>
                if dlist_is_empty head
                then (if nfree1 = chunksPerBlock slab
                      then Some (slab\<lparr>minFreeChunks := 0\<rparr>)
                      else Some (slab\<lparr>minFreeChunks := minFreeChunks slab + 1\<rparr>))
                else Some slab)
      else Some slab)"

definition SlabFree :: "heap \<Rightarrow> pointer \<Rightarrow> failure + heap" where
  "SlabFree h p =
     (let chunk = PointerGetMemoryChunk p in
      req (load_hdr h chunk) (\<lambda>hdr.
      let block = MemoryChunkGetBlock hdr in
      req (blocks h block) (\<lambda>blk0.
      let context = block_slab blk0 in
      req (contexts h context) (\<lambda>slab.
      req (SlabChunkIndex slab block chunk) (\<lambda>i.
      let idx = Size_to_int i in
      req (store_int32 h p (firstFreeChunk blk0)) (\<lambda>h1.
      req (blocks h1 block) (\<lambda>blk1.
      let blk2 = blk1\<lparr>firstFreeChunk := idx, nfree := nfree blk1 + 1\<rparr>;
          slab1 = slab\<lparr>freelist := dlist_delete block (freelist slab)\<rparr>
      in req (SlabFree_update_min slab1 (nfree blk2)) (\<lambda>slab2.
         if nfree blk2 = chunksPerBlock slab2
         then req (sys_free (h1\<lparr>blocks := (blocks h1)(block \<mapsto> blk2)\<rparr>) block) (\<lambda>h2.
                Inr (h2\<lparr>contexts := (contexts h2)(context \<mapsto>
                       slab2\<lparr>nblocks := nblocks slab2 - 1,
                             mem_allocated := mem_allocated slab2 - blockSize slab2\<rparr>)\<rparr>))
         else req (freelist_push (freelist slab2) (nfree blk2) block) (\<lambda>heads.
                Inr (h1\<lparr>contexts := (contexts h1)(context \<mapsto> slab2\<lparr>freelist := heads\<rparr>),
                       blocks := (blocks h1)(block \<mapsto> blk2)\<rparr>))))))))))"

subsection \<open>\<^verbatim>\<open>SlabReset\<close> and \<^verbatim>\<open>SlabDelete\<close>\<close>

text \<open>The body of \<^verbatim>\<open>dlist_foreach_modify\<close> (lines 249 to 258), over the nodes the list
  holds when the walk starts.\<close>

fun SlabReset_blocks :: "heap \<Rightarrow> nat \<Rightarrow> nat list \<Rightarrow> failure + heap" where
  "SlabReset_blocks h context [] = Inr h"
| "SlabReset_blocks h context (block # rest) =
     req (contexts h context) (\<lambda>slab.
     req (sys_free h block) (\<lambda>h1.
       SlabReset_blocks
         (h1\<lparr>contexts := (contexts h1)(context \<mapsto>
               slab\<lparr>freelist := dlist_delete block (freelist slab),
                    nblocks := nblocks slab - 1,
                    mem_allocated := mem_allocated slab - blockSize slab\<rparr>)\<rparr>)
         context rest))"

definition chunksPerBlock_of :: "heap \<Rightarrow> nat \<Rightarrow> int" where
  "chunksPerBlock_of h context =
     (case contexts h context of None \<Rightarrow> 0 | Some slab \<Rightarrow> chunksPerBlock slab)"

lemma SlabReset_blocks_chunksPerBlock:
  "SlabReset_blocks h context nodes = Inr h1 \<Longrightarrow>
   chunksPerBlock_of h1 context = chunksPerBlock_of h context"
proof (induction nodes arbitrary: h)
  case Nil
  then show ?case by simp
next
  case (Cons block rest)
  from Cons.prems obtain slab h2 where
    s: "contexts h context = Some slab" and
    f: "sys_free h block = Some h2" and
    r: "SlabReset_blocks
          (h2\<lparr>contexts := (contexts h2)(context \<mapsto>
                slab\<lparr>freelist := dlist_delete block (freelist slab),
                     nblocks := nblocks slab - 1,
                     mem_allocated := mem_allocated slab - blockSize slab\<rparr>)\<rparr>)
          context rest = Inr h1"
    by (auto simp: req_def split: option.splits)
  from Cons.IH [OF r] s show ?case
    by (simp add: chunksPerBlock_of_def)
qed

text \<open>The outer loop (lines 243 to 260).\<close>

function SlabReset_loop :: "heap \<Rightarrow> nat \<Rightarrow> int \<Rightarrow> failure + heap" where
  "SlabReset_loop h context i =
     (case contexts h context of
        None \<Rightarrow> Inl Undefined
      | Some slab \<Rightarrow>
          if i \<le> chunksPerBlock slab
          then (case freelist_at (freelist slab) i of
                  None \<Rightarrow> Inl Undefined
                | Some head \<Rightarrow>
                    (case SlabReset_blocks h context head of
                       Inl f \<Rightarrow> Inl f
                     | Inr h1 \<Rightarrow> SlabReset_loop h1 context (i + 1)))
          else Inr h)"
  by pat_completeness auto
termination
proof (relation "measure (\<lambda>(h, context, i). nat (chunksPerBlock_of h context + 1 - i))")
  show "wf (measure (\<lambda>(h, context, i). nat (chunksPerBlock_of h context + 1 - i)))"
    by simp
next
  fix h :: heap and c :: nat and i :: int and slab head h1
  assume "contexts h c = Some slab" "i \<le> chunksPerBlock slab"
    and "SlabReset_blocks h c head = Inr h1"
  then show "((h1, c, i + 1), (h, c, i))
      \<in> measure (\<lambda>(h, context, i). nat (chunksPerBlock_of h context + 1 - i))"
    using SlabReset_blocks_chunksPerBlock [of h c head h1]
    by (simp add: chunksPerBlock_of_def)
qed

definition SlabReset :: "heap \<Rightarrow> nat \<Rightarrow> failure + heap" where
  "SlabReset h context =
     (case SlabReset_loop h context 0 of
        Inl f \<Rightarrow> Inl f
      | Inr h1 \<Rightarrow>
          req (contexts h1 context) (\<lambda>slab.
            Inr (h1\<lparr>contexts := (contexts h1)(context \<mapsto> slab\<lparr>minFreeChunks := 0\<rparr>)\<rparr>)))"

definition SlabDelete :: "heap \<Rightarrow> nat \<Rightarrow> failure + heap" where
  "SlabDelete h context =
     (case SlabReset h context of
        Inl f \<Rightarrow> Inl f
      | Inr h1 \<Rightarrow>
          if context \<in> dom (contexts h1)
          then Inr (h1\<lparr>contexts := (contexts h1)(context := None)\<rparr>)
          else Inl Undefined)"

subsection \<open>\<^verbatim>\<open>SlabRealloc\<close> and the queries\<close>




definition SlabIsEmpty :: "heap \<Rightarrow> nat \<Rightarrow> failure + bool" where
  "SlabIsEmpty h context =
     req (contexts h context) (\<lambda>slab. Inr (nblocks slab = 0))"

subsection \<open>The free-list walk of \<^verbatim>\<open>SlabCheck\<close>\<close>



section \<open>The invariant and the reachable states: definitions\<close>

definition chunk_offs :: "Size \<Rightarrow> int \<Rightarrow> Size" where
  "chunk_offs fcs i = sizeof_SlabBlock + word_of_int i * fcs"

definition payload_offs :: "Size \<Rightarrow> int \<Rightarrow> Size" where
  "payload_offs fcs i = chunk_offs fcs i + sizeof_MemoryChunk"

definition geom :: "int \<Rightarrow> Size \<Rightarrow> bool" where
  "geom n fcs \<longleftrightarrow> 0 < n \<and> n < 2 ^ 31 \<and> fcs \<noteq> 0 \<and> nat n * unat fcs < 2 ^ 64"

subsection \<open>The array of lists against the free counts of the blocks\<close>

definition buckets_ok :: "nat list list \<Rightarrow> (nat \<rightharpoonup> int) \<Rightarrow> bool" where
  "buckets_ok heads nf \<longleftrightarrow>
     (\<forall>k<length heads. distinct (heads ! k) \<and> (\<forall>b\<in>set (heads ! k). nf b = Some (int k))) \<and>
     (\<forall>b v. nf b = Some v \<longrightarrow> 0 \<le> v \<and> nat v < length heads \<and> b \<in> set (heads ! nat v))"

definition nfree_of :: "heap \<Rightarrow> nat \<rightharpoonup> int" where
  "nfree_of h = (\<lambda>b. map_option nfree (blocks h b))"

subsection \<open>The free list inside a block\<close>

fun free_chain :: "int \<Rightarrow> Size \<Rightarrow> (Size \<rightharpoonup> int) \<Rightarrow> int \<Rightarrow> int list \<Rightarrow> bool" where
  "free_chain n fcs links i [] = (i = n)"
| "free_chain n fcs links i (x # xs) =
     (i = x \<and> 0 \<le> x \<and> x < n \<and>
      (case links (payload_offs fcs x) of None \<Rightarrow> False | Some j \<Rightarrow> free_chain n fcs links j xs))"

definition chunk_header :: "Size \<Rightarrow> nat \<Rightarrow> MemoryChunk" where
  "chunk_header cs b = MemoryChunkSetHdrMask b (MAXALIGN cs) MCTX_SLAB_ID"

definition block_inv :: "int \<Rightarrow> Size \<Rightarrow> Size \<Rightarrow> nat \<Rightarrow> pointer set \<Rightarrow> nat \<Rightarrow> SlabBlock \<Rightarrow> bool" where
  "block_inv n fcs cs c L b blk \<longleftrightarrow>
     block_slab blk = c \<and>
     (\<exists>fl. free_chain n fcs (chunk_link blk) (firstFreeChunk blk) fl \<and> distinct fl \<and>
        int (length fl) = nfree blk \<and>
        (\<forall>i. 0 \<le> i \<and> i < n \<longrightarrow>
           (Ptr b (payload_offs fcs i) \<in> L \<longleftrightarrow> i \<notin> set fl) \<and>
           (i \<notin> set fl \<longrightarrow> chunk_hdr blk (chunk_offs fcs i) = Some (chunk_header cs b))))"

definition slab_wf :: "SlabContext \<Rightarrow> nat \<Rightarrow> heap \<Rightarrow> pointer set \<Rightarrow> bool" where
  "slab_wf slab c h L \<longleftrightarrow>
     contexts h c = Some slab \<and>
     geom (chunksPerBlock slab) (fullChunkSize slab) \<and>
     length (freelist slab) = nat (chunksPerBlock slab) + 1 \<and>
     fullChunkSize slab = Slab_CHUNKHDRSZ + MAXALIGN (chunkSize slab) \<and>
     buckets_ok (freelist slab) (nfree_of h) \<and>
     (\<forall>b blk. blocks h b = Some blk \<longrightarrow>
        block_inv (chunksPerBlock slab) (fullChunkSize slab) (chunkSize slab) c L b blk) \<and>
     nblocks slab = int (card (dom (blocks h))) \<and>
     mem_allocated slab = word_of_int (nblocks slab) * blockSize slab \<and>
     (\<forall>p\<in>L. \<exists>b i. b \<in> dom (blocks h) \<and> 0 \<le> i \<and> i < chunksPerBlock slab \<and>
        p = Ptr b (payload_offs (fullChunkSize slab) i))"

definition min_ok :: "SlabContext \<Rightarrow> bool" where
  "min_ok slab \<longleftrightarrow>
     minFreeChunks slab = 0 \<or>
     (0 < minFreeChunks slab \<and> minFreeChunks slab < chunksPerBlock slab \<and>
      freelist slab ! nat (minFreeChunks slab) \<noteq> [])"

definition slab_inv :: "nat \<Rightarrow> heap \<Rightarrow> pointer set \<Rightarrow> bool" where
  "slab_inv c h L \<longleftrightarrow>
     (\<exists>slab. slab_wf slab c h L \<and>
        (\<forall>b blk. blocks h b = Some blk \<longrightarrow> nfree blk < chunksPerBlock slab) \<and> min_ok slab)"

definition take_pre :: "SlabContext \<Rightarrow> nat \<Rightarrow> heap \<Rightarrow> pointer set \<Rightarrow> bool" where
  "take_pre slab c h L \<longleftrightarrow>
     slab_wf slab c h L \<and>
     0 < minFreeChunks slab \<and> minFreeChunks slab \<le> chunksPerBlock slab \<and>
     freelist slab ! nat (minFreeChunks slab) \<noteq> [] \<and>
     (\<forall>b blk. blocks h b = Some blk \<longrightarrow>
        nfree blk < chunksPerBlock slab \<or>
        (minFreeChunks slab = chunksPerBlock slab \<and> freelist slab ! nat (chunksPerBlock slab) = [b]))"

definition take_heap :: "heap \<Rightarrow> nat \<Rightarrow> SlabContext \<Rightarrow> nat \<Rightarrow> SlabBlock \<Rightarrow> int \<Rightarrow> int \<Rightarrow> heap" where
  "take_heap h c slab b blk j m' =
     h\<lparr>contexts := (contexts h)(c \<mapsto>
          slab\<lparr>freelist := (dlist_delete b (freelist slab))
                 [nat (nfree blk - 1) := b # dlist_delete b (freelist slab) ! nat (nfree blk - 1)],
               minFreeChunks := m'\<rparr>),
       blocks := (blocks h)(b \<mapsto>
          blk\<lparr>nfree := nfree blk - 1, firstFreeChunk := j,
              chunk_hdr := (chunk_hdr blk)
                (chunk_offs (fullChunkSize slab) (firstFreeChunk blk) \<mapsto>
                   chunk_header (chunkSize slab) b)\<rparr>)\<rparr>"

definition new_block :: "SlabContext \<Rightarrow> nat \<Rightarrow> nat \<Rightarrow> SlabBlock" where
  "new_block slab c a =
     SlabAlloc_init_chunks slab a
       \<lparr>nfree = chunksPerBlock slab, firstFreeChunk = 0, block_slab = c,
        chunk_hdr = Map.empty, chunk_link = Map.empty\<rparr> 0"

definition new_block_heap :: "heap \<Rightarrow> nat \<Rightarrow> SlabContext \<Rightarrow> nat \<Rightarrow> heap" where
  "new_block_heap h c slab a =
     h\<lparr>contexts := (contexts h)(c \<mapsto>
          slab\<lparr>freelist := (freelist slab)
                  [nat (chunksPerBlock slab) := a # freelist slab ! nat (chunksPerBlock slab)],
               minFreeChunks := chunksPerBlock slab,
               nblocks := nblocks slab + 1,
               mem_allocated := mem_allocated slab + blockSize slab\<rparr>),
       blocks := (blocks h)(a \<mapsto> new_block slab c a)\<rparr>"

definition free_min :: "SlabContext \<Rightarrow> int \<Rightarrow> int" where
  "free_min slab v =
     (if minFreeChunks slab = v - 1 \<and> freelist slab ! nat (minFreeChunks slab) = []
      then (if v = chunksPerBlock slab then 0 else minFreeChunks slab + 1)
      else minFreeChunks slab)"

definition free_block :: "Size \<Rightarrow> SlabBlock \<Rightarrow> int \<Rightarrow> SlabBlock" where
  "free_block fcs blk i =
     blk\<lparr>chunk_link := (chunk_link blk)(payload_offs fcs i \<mapsto> firstFreeChunk blk),
         firstFreeChunk := i, nfree := nfree blk + 1\<rparr>"

definition free_slab :: "SlabContext \<Rightarrow> nat \<Rightarrow> SlabBlock \<Rightarrow> SlabContext" where
  "free_slab slab b blk =
     (let heads1 = dlist_delete b (freelist slab);
          m' = free_min (slab\<lparr>freelist := heads1\<rparr>) (nfree blk + 1)
      in if nfree blk + 1 = chunksPerBlock slab
         then slab\<lparr>freelist := heads1, minFreeChunks := m', nblocks := nblocks slab - 1,
                   mem_allocated := mem_allocated slab - blockSize slab\<rparr>
         else slab\<lparr>minFreeChunks := m',
                   freelist := heads1[nat (nfree blk + 1) := b # heads1 ! nat (nfree blk + 1)]\<rparr>)"

definition reset_inv :: "SlabContext \<Rightarrow> nat \<Rightarrow> heap \<Rightarrow> bool" where
  "reset_inv slab0 c h \<longleftrightarrow>
     (\<exists>slab. contexts h c = Some slab \<and>
        chunkSize slab = chunkSize slab0 \<and> fullChunkSize slab = fullChunkSize slab0 \<and>
        blockSize slab = blockSize slab0 \<and> chunksPerBlock slab = chunksPerBlock slab0 \<and>
        length (freelist slab) = length (freelist slab0) \<and>
        buckets_ok (freelist slab) (nfree_of h) \<and>
        nblocks slab = int (card (dom (blocks h))) \<and>
        mem_allocated slab = word_of_int (nblocks slab) * blockSize slab)"

inductive reach :: "nat \<Rightarrow> heap \<Rightarrow> pointer set \<Rightarrow> bool" for c :: nat where
  reach_create:
    "SlabContextCreate empty_heap (Some c) bs cs0 = Inr (c, h) \<Longrightarrow>
     MAXALIGN cs0 \<le> MEMORYCHUNK_MAX_VALUE \<Longrightarrow>
     0 < chunksPerBlock_of h c \<Longrightarrow>
     reach c h {}"
| reach_alloc:
    "reach c h L \<Longrightarrow> sys \<notin> Some ` dom (blocks h) \<Longrightarrow>
     SlabAlloc h c sz sys = Inr (Some p, h') \<Longrightarrow>
     reach c h' (insert p L)"
| reach_alloc_null:
    "reach c h L \<Longrightarrow> sys \<notin> Some ` dom (blocks h) \<Longrightarrow>
     SlabAlloc h c sz sys = Inr (None, h') \<Longrightarrow>
     reach c h' L"
| reach_alloc_raise:
    "reach c h L \<Longrightarrow> sys \<notin> Some ` dom (blocks h) \<Longrightarrow>
     SlabAlloc h c sz sys = Inl (Raised e h') \<Longrightarrow>
     reach c h' L"
| reach_free:
    "reach c h L \<Longrightarrow> p \<in> L \<Longrightarrow> SlabFree h p = Inr h' \<Longrightarrow> reach c h' (L - {p})"
| reach_reset:
    "reach c h L \<Longrightarrow> SlabReset h c = Inr h' \<Longrightarrow> reach c h' {}"

fun SlabAlloc_seq :: "heap \<Rightarrow> nat \<Rightarrow> Size \<Rightarrow> nat option list \<Rightarrow> failure + (pointer option list \<times> heap)" where
  "SlabAlloc_seq h context sz [] = Inr ([], h)"
| "SlabAlloc_seq h context sz (sys # rest) =
     (case SlabAlloc h context sz sys of
        Inl f \<Rightarrow> Inl f
      | Inr (p, h1) \<Rightarrow>
          (case SlabAlloc_seq h1 context sz rest of
             Inl f \<Rightarrow> Inl f
           | Inr (ps, h2) \<Rightarrow> Inr (p # ps, h2)))"

definition filling :: "nat \<Rightarrow> heap \<Rightarrow> pointer set \<Rightarrow> nat \<Rightarrow> SlabContext \<Rightarrow> int \<Rightarrow> bool" where
  "filling c h L a slab i \<longleftrightarrow>
     slab_inv c h L \<and> contexts h c = Some slab \<and> 0 < i \<and> i < chunksPerBlock slab \<and>
     minFreeChunks slab = chunksPerBlock slab - i \<and>
     (\<exists>rest. freelist slab ! nat (chunksPerBlock slab - i) = a # rest) \<and>
     (\<exists>blk. blocks h a = Some blk \<and> firstFreeChunk blk = i \<and> nfree blk = chunksPerBlock slab - i \<and>
        (\<forall>k. 0 \<le> k \<and> k < chunksPerBlock slab \<longrightarrow>
           chunk_link blk (payload_offs (fullChunkSize slab) k) = Some (k + 1)))"

text \<open>Operations on the context that leave block \<open>b\<close> alone.\<close>

inductive idle :: "nat \<Rightarrow> nat \<Rightarrow> heap \<Rightarrow> pointer set \<Rightarrow> heap \<Rightarrow> pointer set \<Rightarrow> bool"
  for c :: nat and b :: nat and h :: heap and L :: "pointer set" where
  idle_refl: "idle c b h L h L"
| idle_alloc:
    "idle c b h L h1 L1 \<Longrightarrow> sys \<notin> Some ` dom (blocks h1) \<Longrightarrow>
     SlabAlloc h1 c sz sys = Inr (Some q, h2) \<Longrightarrow> ptr_base q \<noteq> b \<Longrightarrow>
     idle c b h L h2 (insert q L1)"
| idle_free:
    "idle c b h L h1 L1 \<Longrightarrow> q \<in> L1 \<Longrightarrow> ptr_base q \<noteq> b \<Longrightarrow>
     SlabFree h1 q = Inr h2 \<Longrightarrow>
     idle c b h L h2 (L1 - {q})"

subsection \<open>A concrete run\<close>

text \<open>The states of a context with \<^verbatim>\<open>blockSize = 80\<close> and \<^verbatim>\<open>chunkSize = 16\<close>, hence two
  chunks of 24 bytes in a block, at address 7; \<^verbatim>\<open>malloc\<close> returns the blocks 100, 200 and
  300.  The lemmas of the last section show that the operations produce exactly these
  states.\<close>

definition ex_slab :: "Size \<Rightarrow> int \<Rightarrow> int \<Rightarrow> nat list list \<Rightarrow> SlabContext" where
  "ex_slab mem m nb heads =
     \<lparr>mem_allocated = mem, chunkSize = 16, fullChunkSize = 24, blockSize = 80,
      chunksPerBlock = 2, minFreeChunks = m, nblocks = nb, freelist = heads\<rparr>"

definition ex_hdr :: "nat \<Rightarrow> MemoryChunk" where
  "ex_hdr b = \<lparr>hdr_block = b, hdr_size = 16, hdr_methodid = MCTX_SLAB_ID\<rparr>"

definition ex_block_one :: "nat \<Rightarrow> SlabBlock" where
  "ex_block_one b =
     \<lparr>nfree = 1, firstFreeChunk = 1, block_slab = 7,
      chunk_hdr = [32 \<mapsto> ex_hdr b], chunk_link = [40 \<mapsto> 1, 64 \<mapsto> 2]\<rparr>"

definition ex_block_full :: "nat \<Rightarrow> SlabBlock" where
  "ex_block_full b =
     \<lparr>nfree = 0, firstFreeChunk = 2, block_slab = 7,
      chunk_hdr = [32 \<mapsto> ex_hdr b, 56 \<mapsto> ex_hdr b], chunk_link = [40 \<mapsto> 1, 64 \<mapsto> 2]\<rparr>"

definition ex_block_freed :: "nat \<Rightarrow> SlabBlock" where
  "ex_block_freed b =
     \<lparr>nfree = 1, firstFreeChunk = 0, block_slab = 7,
      chunk_hdr = [32 \<mapsto> ex_hdr b, 56 \<mapsto> ex_hdr b], chunk_link = [64 \<mapsto> 2, 40 \<mapsto> 2]\<rparr>"

definition ex_h0 :: heap where
  "ex_h0 = \<lparr>contexts = [7 \<mapsto> ex_slab 0 0 0 [[], [], []]], blocks = Map.empty\<rparr>"

definition ex_h1 :: heap where
  "ex_h1 = \<lparr>contexts = [7 \<mapsto> ex_slab 80 1 1 [[], [100], []]],
            blocks = [100 \<mapsto> ex_block_one 100]\<rparr>"

definition ex_h2 :: heap where
  "ex_h2 = \<lparr>contexts = [7 \<mapsto> ex_slab 80 0 1 [[100], [], []]],
            blocks = [100 \<mapsto> ex_block_full 100]\<rparr>"

definition ex_h3 :: heap where
  "ex_h3 = \<lparr>contexts = [7 \<mapsto> ex_slab 160 1 2 [[100], [200], []]],
            blocks = [100 \<mapsto> ex_block_full 100, 200 \<mapsto> ex_block_one 200]\<rparr>"

definition ex_h4 :: heap where
  "ex_h4 = \<lparr>contexts = [7 \<mapsto> ex_slab 160 0 2 [[200, 100], [], []]],
            blocks = [100 \<mapsto> ex_block_full 100, 200 \<mapsto> ex_block_full 200]\<rparr>"

definition ex_h5 :: heap where
  "ex_h5 = \<lparr>contexts = [7 \<mapsto> ex_slab 160 0 2 [[200], [100], []]],
            blocks = [200 \<mapsto> ex_block_full 200, 100 \<mapsto> ex_block_freed 100]\<rparr>"

definition ex_h6 :: heap where
  "ex_h6 = \<lparr>contexts = [7 \<mapsto> ex_slab 240 1 3 [[200], [300, 100], []]],
            blocks = [200 \<mapsto> ex_block_full 200, 100 \<mapsto> ex_block_freed 100,
                      300 \<mapsto> ex_block_one 300]\<rparr>"

definition ex_g1 :: heap where
  "ex_g1 = \<lparr>contexts = [7 \<mapsto> ex_slab 80 1 1 [[], [100], []]],
            blocks = [100 \<mapsto> ex_block_freed 100]\<rparr>"

definition ex_block_refilled :: "nat \<Rightarrow> SlabBlock" where
  "ex_block_refilled b =
     \<lparr>nfree = 0, firstFreeChunk = 2, block_slab = 7,
      chunk_hdr = [56 \<mapsto> ex_hdr b, 32 \<mapsto> ex_hdr b], chunk_link = [64 \<mapsto> 2, 40 \<mapsto> 2]\<rparr>"

definition ex_g2 :: heap where
  "ex_g2 = \<lparr>contexts = [7 \<mapsto> ex_slab 80 0 1 [[100], [], []]],
            blocks = [100 \<mapsto> ex_block_refilled 100]\<rparr>"

text \<open>The value the specification gives the cache \<^verbatim>\<open>minFreeChunks\<close>, in its words: the
  smallest non-zero \<open>k\<close> below \<^verbatim>\<open>chunksPerBlock\<close> whose list is not empty, or 0 when there
  is none.\<close>

definition min_free_spec :: "SlabContext \<Rightarrow> int" where
  "min_free_spec slab =
     (case filter (\<lambda>k. freelist slab ! k \<noteq> []) [1..<nat (chunksPerBlock slab)] of
        [] \<Rightarrow> 0
      | k # rest \<Rightarrow> int k)"

section \<open>Lemmas\<close>

lemma unat_idx:
  assumes "0 \<le> i" "i < 2 ^ 31"
  shows "unat (word_of_int i :: Size) = nat i"
proof -
  have "nat i < 2 ^ 64"
    using assms by (simp add: nat_less_iff)
  moreover have "(word_of_int i :: Size) = word_of_nat (nat i)"
    using assms(1) by simp
  ultimately show ?thesis
    by (simp add: unat_of_nat del: of_nat_nat)
qed

lemma unat_idx_mult:
  assumes "geom n fcs" "0 \<le> i" "i < n"
  shows "unat (word_of_int i * fcs :: Size) = nat i * unat fcs"
proof -
  have "nat i \<le> nat n"
    using assms by simp
  then have "nat i * unat fcs \<le> nat n * unat fcs"
    by (rule mult_le_mono1)
  then have lt: "nat i * unat fcs < 2 ^ 64"
    using assms(1) unfolding geom_def by linarith
  have "unat (word_of_int i :: Size) = nat i"
    using assms by (intro unat_idx) (auto simp: geom_def)
  then show ?thesis
    using lt by (simp add: unat_mult_lem [THEN iffD1])
qed

lemma Size_to_int_idx:
  assumes "0 \<le> i" "i < 2 ^ 31"
  shows "Size_to_int (word_of_int i) = i"
proof -
  have "(ucast (word_of_int i :: Size) :: 32 word) = word_of_int i"
    by (simp add: ucast_eq word_of_int_eq_iff take_bit_int_eq_self_iff unsigned_of_int
        take_bit_of_int min_def)
  moreover have "sint (word_of_int i :: 32 word) = i"
    using assms by (simp add: sint_sbintrunc' signed_take_bit_int_eq_self)
  ultimately show ?thesis
    by (simp add: Size_to_int_def)
qed

lemma chunk_index_roundtrip:
  assumes "geom n fcs" "0 \<le> i" "i < n"
  shows "(chunk_offs fcs i - sizeof_SlabBlock) div fcs = word_of_int i"
proof -
  have f: "0 < unat fcs"
    using assms(1) by (simp add: geom_def unat_gt_0)
  have "unat ((word_of_int i * fcs) div fcs) = unat (word_of_int i :: Size)"
    using assms f
    by (simp add: unat_div unat_idx_mult [OF assms] unat_idx geom_def)
  then have "(word_of_int i * fcs) div fcs = word_of_int i"
    by (simp add: word_unat_eq_iff)
  then show ?thesis
    by (simp add: chunk_offs_def)
qed

lemma payload_offs_inj:
  assumes "geom n fcs" "0 \<le> i" "i < n" "0 \<le> j" "j < n"
    and "payload_offs fcs i = payload_offs fcs j"
  shows "i = j"
proof -
  from assms(6) have "word_of_int i * fcs = word_of_int j * fcs"
    by (simp add: payload_offs_def chunk_offs_def)
  then have "unat (word_of_int i * fcs) = unat (word_of_int j * fcs)"
    by simp
  then have "nat i * unat fcs = nat j * unat fcs"
    using assms by (simp add: unat_idx_mult)
  moreover have "0 < unat fcs"
    using assms(1) by (simp add: geom_def unat_gt_0)
  ultimately show ?thesis
    using assms by simp
qed

lemma chunk_offs_inj:
  assumes "geom n fcs" "0 \<le> i" "i < n" "0 \<le> j" "j < n"
    and "chunk_offs fcs i = chunk_offs fcs j"
  shows "i = j"
  using assms payload_offs_inj [of n fcs i j] by (simp add: payload_offs_def)

subsection \<open>Simple facts about the helpers\<close>

lemma req_Some [simp]: "req (Some x) f = f x"
  by (simp add: req_def)

lemma req_None [simp]: "req None f = Inl Undefined"
  by (simp add: req_def)

lemma req_Inr_iff: "req m f = Inr y \<longleftrightarrow> (\<exists>x. m = Some x \<and> f x = Inr y)"
  by (cases m) simp_all

lemma SlabBlockGetChunk_offs [simp]:
  "SlabBlockGetChunk slab block idx = Ptr block (chunk_offs (fullChunkSize slab) idx)"
  by (simp add: SlabBlockGetChunk_def chunk_offs_def)

lemma MemoryChunkGetPointer_chunk [simp]:
  "MemoryChunkGetPointer (Ptr block (chunk_offs fcs idx)) = Ptr block (payload_offs fcs idx)"
  by (simp add: MemoryChunkGetPointer_def payload_offs_def)

lemma PointerGetMemoryChunk_payload [simp]:
  "PointerGetMemoryChunk (Ptr block (payload_offs fcs idx)) = Ptr block (chunk_offs fcs idx)"
  by (simp add: PointerGetMemoryChunk_def payload_offs_def)

lemma freelist_at_Some [simp]:
  "0 \<le> i \<Longrightarrow> nat i < length heads \<Longrightarrow> freelist_at heads i = Some (heads ! nat i)"
  by (auto simp: freelist_at_def)

lemma freelist_push_Some [simp]:
  "0 \<le> i \<Longrightarrow> nat i < length heads \<Longrightarrow>
   freelist_push heads i node = Some (heads[nat i := node # heads ! nat i])"
  by (simp add: freelist_push_def dlist_push_head_def)

lemma length_dlist_delete [simp]: "length (dlist_delete node heads) = length heads"
  by (simp add: dlist_delete_def)

lemma nth_dlist_delete [simp]:
  "k < length heads \<Longrightarrow> dlist_delete node heads ! k = removeAll node (heads ! k)"
  by (simp add: dlist_delete_def)

lemma buckets_okD1:
  "buckets_ok heads nf \<Longrightarrow> k < length heads \<Longrightarrow> b \<in> set (heads ! k) \<Longrightarrow> nf b = Some (int k)"
  by (simp add: buckets_ok_def)

lemma buckets_ok_distinct:
  "buckets_ok heads nf \<Longrightarrow> k < length heads \<Longrightarrow> distinct (heads ! k)"
  by (simp add: buckets_ok_def)

lemma buckets_okD2:
  "buckets_ok heads nf \<Longrightarrow> nf b = Some v \<Longrightarrow>
   0 \<le> v \<and> nat v < length heads \<and> b \<in> set (heads ! nat v)"
  by (simp add: buckets_ok_def)

lemma buckets_ok_notin:
  "buckets_ok heads nf \<Longrightarrow> k < length heads \<Longrightarrow> nf b \<noteq> Some (int k) \<Longrightarrow> b \<notin> set (heads ! k)"
  by (auto simp: buckets_ok_def)

lemma buckets_ok_delete:
  assumes "buckets_ok heads nf"
  shows "buckets_ok (dlist_delete b heads) (nf(b := None))"
proof -
  let ?H = "dlist_delete b heads"
  have 1: "distinct (?H ! k) \<and> (\<forall>x\<in>set (?H ! k). (nf(b := None)) x = Some (int k))"
    if "k < length ?H" for k
    using assms that by (auto simp: buckets_ok_def distinct_removeAll)
  have 2: "0 \<le> v \<and> nat v < length ?H \<and> x \<in> set (?H ! nat v)"
    if "(nf(b := None)) x = Some v" for x v
  proof -
    from that have x: "x \<noteq> b" "nf x = Some v"
      by (auto split: if_splits)
    then have "0 \<le> v \<and> nat v < length heads \<and> x \<in> set (heads ! nat v)"
      using assms by (simp add: buckets_ok_def)
    with x show ?thesis by simp
  qed
  show ?thesis
    unfolding buckets_ok_def using 1 2 by blast
qed

lemma buckets_ok_push:
  assumes "buckets_ok heads nf" "nf a = None" "0 \<le> v" "nat v < length heads"
  shows "buckets_ok (heads[nat v := a # heads ! nat v]) (nf(a \<mapsto> v))"
proof -
  let ?H = "heads[nat v := a # heads ! nat v]"
  have a: "a \<notin> set (heads ! k)" if "k < length heads" for k
    using assms(1,2) that by (auto simp: buckets_ok_def)
  have 1: "distinct (?H ! k) \<and> (\<forall>x\<in>set (?H ! k). (nf(a \<mapsto> v)) x = Some (int k))"
    if "k < length ?H" for k
    using assms that a by (cases "k = nat v") (auto simp: buckets_ok_def)
  have 2: "0 \<le> w \<and> nat w < length ?H \<and> x \<in> set (?H ! nat w)"
    if xw: "(nf(a \<mapsto> v)) x = Some w" for x w
  proof (cases "x = a")
    case True
    with xw assms show ?thesis by simp
  next
    case False
    with xw have "nf x = Some w" by simp
    then have "0 \<le> w \<and> nat w < length heads \<and> x \<in> set (heads ! nat w)"
      using assms(1) by (simp add: buckets_ok_def)
    then show ?thesis
      by (cases "nat w = nat v") simp_all
  qed
  show ?thesis
    unfolding buckets_ok_def using 1 2 by blast
qed

lemma buckets_ok_move:
  assumes "buckets_ok heads nf" "0 \<le> v" "nat v < length heads"
  shows "buckets_ok ((dlist_delete b heads)[nat v := b # dlist_delete b heads ! nat v])
           (nf(b \<mapsto> v))"
proof -
  have "buckets_ok ((dlist_delete b heads)[nat v := b # dlist_delete b heads ! nat v])
          ((nf(b := None))(b \<mapsto> v))"
    using assms by (intro buckets_ok_push buckets_ok_delete) simp_all
  then show ?thesis by simp
qed

lemma buckets_ok_finite:
  assumes "buckets_ok heads nf"
  shows "finite (dom nf)"
proof -
  have "b \<in> (\<Union>k<length heads. set (heads ! k))" if "b \<in> dom nf" for b
  proof -
    from that obtain v where "nf b = Some v" by auto
    from buckets_okD2 [OF assms this] show ?thesis by blast
  qed
  then have "dom nf \<subseteq> (\<Union>k<length heads. set (heads ! k))"
    by blast
  then show ?thesis
    by (rule finite_subset) simp
qed

lemma nfree_of_Some [simp]: "blocks h b = Some blk \<Longrightarrow> nfree_of h b = Some (nfree blk)"
  by (simp add: nfree_of_def)

lemma nfree_of_eq_Some: "nfree_of h b = Some v \<longleftrightarrow> (\<exists>blk. blocks h b = Some blk \<and> nfree blk = v)"
  by (auto simp: nfree_of_def)

lemma nfree_of_None [simp]: "nfree_of h b = None \<longleftrightarrow> blocks h b = None"
  by (simp add: nfree_of_def)

lemma dom_nfree_of [simp]: "dom (nfree_of h) = dom (blocks h)"
  by (auto simp: nfree_of_def dom_def)

lemma nfree_of_upd:
  "blocks h' = (blocks h)(b \<mapsto> blk) \<Longrightarrow> nfree_of h' = (nfree_of h)(b \<mapsto> nfree blk)"
  by (auto simp: nfree_of_def fun_eq_iff)

lemma nfree_of_del:
  "blocks h' = (blocks h)(b := None) \<Longrightarrow> nfree_of h' = (nfree_of h)(b := None)"
  by (auto simp: nfree_of_def fun_eq_iff)

lemma free_chain_range:
  "free_chain n fcs links i fl \<Longrightarrow> x \<in> set fl \<Longrightarrow> 0 \<le> x \<and> x < n"
  by (induction fl arbitrary: i) (auto split: option.splits)


lemma free_chain_upd_other:
  assumes "geom n fcs" "0 \<le> x" "x < n" "x \<notin> set fl"
  shows "free_chain n fcs (links(payload_offs fcs x \<mapsto> v)) i fl = free_chain n fcs links i fl"
  using assms(4)
proof (induction fl arbitrary: i)
  case Nil
  then show ?case by simp
next
  case (Cons y ys)
  show ?case
  proof (cases "0 \<le> y \<and> y < n")
    case True
    with Cons.prems assms have "payload_offs fcs y \<noteq> payload_offs fcs x"
      using payload_offs_inj [of n fcs y x] by auto
    with Cons show ?thesis by (simp split: option.split)
  next
    case False
    then show ?thesis by auto
  qed
qed


lemma free_chain_upto:
  assumes "\<forall>k. i \<le> k \<and> k < n \<longrightarrow> links (payload_offs fcs k) = Some (k + 1)" "0 \<le> i" "i \<le> n"
  shows "free_chain n fcs links i [i..n - 1]"
  using assms
proof (induction "nat (n - i)" arbitrary: i)
  case 0
  then have "i = n" by simp
  then show ?case by simp
next
  case (Suc m)
  then have lt: "i < n" by linarith
  have "free_chain n fcs links (i + 1) [i + 1..n - 1]"
    using Suc.prems Suc.hyps(2) by (intro Suc.hyps(1)) auto
  moreover have "[i..n - 1] = i # [i + 1..n - 1]"
    using lt by (simp add: upto_rec1)
  ultimately show ?case
    using Suc.prems lt by simp
qed

lemma distinct_all_but_one:
  assumes "distinct (fl :: int list)" "\<forall>x\<in>set fl. 0 \<le> x \<and> x < n" "int (length fl) + 1 = n"
    "0 \<le> i" "i < n" "i \<notin> set fl" "0 \<le> j" "j < n" "j \<noteq> i"
  shows "j \<in> set fl"
proof -
  have sub: "set fl \<subseteq> {0..<n} - {i}" using assms(2,6) by auto
  have "card ({0..<n} - {i}) = nat n - 1"
    using assms(4,5) by simp
  also have "\<dots> = card (set fl)"
    using assms(1,3) by (simp add: distinct_card)
  finally have "set fl = {0..<n} - {i}"
    using sub by (intro card_subset_eq) simp_all
  with assms show ?thesis by auto
qed

declare SlabAlloc_rescan.simps [simp del]

declare SlabAlloc_init_chunks.simps [simp del]

declare SlabReset_loop.simps [simp del]

lemma slab_inv_take_pre:
  "slab_wf slab c h L \<Longrightarrow> \<forall>b blk. blocks h b = Some blk \<longrightarrow> nfree blk < chunksPerBlock slab \<Longrightarrow>
   min_ok slab \<Longrightarrow> minFreeChunks slab \<noteq> 0 \<Longrightarrow> take_pre slab c h L"
  by (auto simp: take_pre_def min_ok_def)

subsection \<open>The update of minFreeChunks in SlabAlloc\<close>

lemma SlabAlloc_rescan_result:
  assumes "length (freelist slab) = nat (chunksPerBlock slab) + 1" "1 \<le> idx"
  shows "\<exists>m. SlabAlloc_rescan slab idx = Some (slab\<lparr>minFreeChunks := m\<rparr>) \<and>
           (m = minFreeChunks slab \<or>
            (idx \<le> m \<and> m \<le> chunksPerBlock slab \<and> freelist slab ! nat m \<noteq> []))"
  using assms
proof (induction slab idx rule: SlabAlloc_rescan.induct)
  case (1 slab idx)
  show ?case
  proof (cases "idx \<le> chunksPerBlock slab")
    case False
    then have "SlabAlloc_rescan slab idx = Some (slab\<lparr>minFreeChunks := minFreeChunks slab\<rparr>)"
      by (subst SlabAlloc_rescan.simps) simp
    then show ?thesis by blast
  next
    case True
    with "1.prems" have at: "freelist_at (freelist slab) idx = Some (freelist slab ! nat idx)"
      by simp
    show ?thesis
    proof (cases "freelist slab ! nat idx = []")
      case True
      then have e: "dlist_is_empty (freelist slab ! nat idx)"
        by (simp add: dlist_is_empty_def)
      from "1.IH" [OF \<open>idx \<le> chunksPerBlock slab\<close> at e] "1.prems"
      obtain m where m: "SlabAlloc_rescan slab (idx + 1) = Some (slab\<lparr>minFreeChunks := m\<rparr>)"
        "m = minFreeChunks slab \<or>
           (idx + 1 \<le> m \<and> m \<le> chunksPerBlock slab \<and> freelist slab ! nat m \<noteq> [])"
        by auto
      have "SlabAlloc_rescan slab idx = Some (slab\<lparr>minFreeChunks := m\<rparr>)"
        using \<open>idx \<le> chunksPerBlock slab\<close> at e m(1) by (subst SlabAlloc_rescan.simps) simp
      with m(2) show ?thesis by auto
    next
      case False
      then have "SlabAlloc_rescan slab idx = Some (slab\<lparr>minFreeChunks := idx\<rparr>)"
        using \<open>idx \<le> chunksPerBlock slab\<close> at
        by (subst SlabAlloc_rescan.simps) (simp add: dlist_is_empty_def)
      with False \<open>idx \<le> chunksPerBlock slab\<close> show ?thesis by auto
    qed
  qed
qed

lemma SlabAlloc_update_min_result:
  assumes "length (freelist slab) = nat (chunksPerBlock slab) + 1"
    and "minFreeChunks slab \<noteq> 0 \<longrightarrow>
           0 < minFreeChunks slab \<and> minFreeChunks slab \<le> chunksPerBlock slab \<and>
           freelist slab ! nat (minFreeChunks slab) \<noteq> []"
  shows "\<exists>m. SlabAlloc_update_min slab = Some (slab\<lparr>minFreeChunks := m\<rparr>) \<and>
           min_ok (slab\<lparr>minFreeChunks := m\<rparr>) \<and>
           (minFreeChunks slab \<noteq> 0 \<and> minFreeChunks slab \<noteq> chunksPerBlock slab \<longrightarrow>
              m = minFreeChunks slab)"
proof (cases "minFreeChunks slab = 0")
  case True
  from SlabAlloc_rescan_result [OF assms(1), of 1]
  obtain m where m: "SlabAlloc_rescan slab 1 = Some (slab\<lparr>minFreeChunks := m\<rparr>)"
    "m = minFreeChunks slab \<or> (1 \<le> m \<and> m \<le> chunksPerBlock slab \<and> freelist slab ! nat m \<noteq> [])"
    by auto
  show ?thesis
  proof (cases "m = chunksPerBlock slab")
    case True
    with m \<open>minFreeChunks slab = 0\<close>
    have "SlabAlloc_update_min slab = Some (slab\<lparr>minFreeChunks := 0\<rparr>)"
      by (simp add: SlabAlloc_update_min_def)
    then show ?thesis
      using \<open>minFreeChunks slab = 0\<close> by (intro exI [of _ 0]) (simp add: min_ok_def)
  next
    case False
    with m \<open>minFreeChunks slab = 0\<close>
    have "SlabAlloc_update_min slab = Some (slab\<lparr>minFreeChunks := m\<rparr>)"
      by (simp add: SlabAlloc_update_min_def)
    then show ?thesis
      using \<open>minFreeChunks slab = 0\<close> m(2) False by (intro exI [of _ m]) (auto simp: min_ok_def)
  qed
next
  case False
  show ?thesis
  proof (cases "minFreeChunks slab = chunksPerBlock slab")
    case True
    with False have "SlabAlloc_update_min slab = Some (slab\<lparr>minFreeChunks := 0\<rparr>)"
      by (simp add: SlabAlloc_update_min_def)
    then show ?thesis
      using True False by (intro exI [of _ 0]) (simp add: min_ok_def)
  next
    case nf: False
    with False have "SlabAlloc_update_min slab = Some (slab\<lparr>minFreeChunks := minFreeChunks slab\<rparr>)"
      by (simp add: SlabAlloc_update_min_def)
    then show ?thesis
      using nf False assms(2) by (intro exI [of _ "minFreeChunks slab"]) (simp add: min_ok_def)
  qed
qed

lemma block_inv_cong_L:
  "(\<And>i. Ptr b (payload_offs fcs i) \<in> L' \<longleftrightarrow> Ptr b (payload_offs fcs i) \<in> L) \<Longrightarrow>
   block_inv n fcs cs c L' b blk = block_inv n fcs cs c L b blk"
  by (simp add: block_inv_def)

lemma slab_wf_finite: "slab_wf slab c h L \<Longrightarrow> finite (dom (blocks h))"
  using buckets_ok_finite [of "freelist slab" "nfree_of h"] by (simp add: slab_wf_def)

lemma SlabAlloc_take_eq:
  assumes "contexts h c = Some slab"
    and "0 \<le> minFreeChunks slab" "nat (minFreeChunks slab) < length (freelist slab)"
    and "freelist slab ! nat (minFreeChunks slab) = b # rest"
    and "blocks h b = Some blk"
    and "chunk_link blk (payload_offs (fullChunkSize slab) (firstFreeChunk blk)) = Some j"
    and "0 \<le> nfree blk - 1" "nat (nfree blk - 1) < length (freelist slab)"
    and "SlabAlloc_update_min
           (slab\<lparr>minFreeChunks := nfree blk - 1,
                 freelist := (dlist_delete b (freelist slab))
                   [nat (nfree blk - 1) := b # dlist_delete b (freelist slab) ! nat (nfree blk - 1)]\<rparr>)
         = Some (slab\<lparr>minFreeChunks := nfree blk - 1,
                 freelist := (dlist_delete b (freelist slab))
                   [nat (nfree blk - 1) := b # dlist_delete b (freelist slab) ! nat (nfree blk - 1)]\<rparr>
                 \<lparr>minFreeChunks := m'\<rparr>)"
  shows "SlabAlloc_take h c =
           Inr (Some (Ptr b (payload_offs (fullChunkSize slab) (firstFreeChunk blk))),
                take_heap h c slab b blk j m')"
  using assms
  by (simp add: SlabAlloc_take_def Let_def dlist_head_element_def chunk_header_def take_heap_def)

lemma SlabAlloc_take_inv:
  assumes pre: "take_pre slab c h L"
  shows "\<exists>b rest blk j m'.
      freelist slab ! nat (minFreeChunks slab) = b # rest \<and> blocks h b = Some blk \<and>
      nfree blk = minFreeChunks slab \<and>
      0 \<le> firstFreeChunk blk \<and> firstFreeChunk blk < chunksPerBlock slab \<and>
      chunk_link blk (payload_offs (fullChunkSize slab) (firstFreeChunk blk)) = Some j \<and>
      (minFreeChunks slab \<noteq> 1 \<longrightarrow> m' = minFreeChunks slab - 1) \<and>
      SlabAlloc_take h c =
        Inr (Some (Ptr b (payload_offs (fullChunkSize slab) (firstFreeChunk blk))),
             take_heap h c slab b blk j m') \<and>
      Ptr b (payload_offs (fullChunkSize slab) (firstFreeChunk blk)) \<notin> L \<and>
      slab_inv c (take_heap h c slab b blk j m')
        (insert (Ptr b (payload_offs (fullChunkSize slab) (firstFreeChunk blk))) L)"
proof -
  define n where "n = chunksPerBlock slab"
  define fcs where "fcs = fullChunkSize slab"
  define cs where "cs = chunkSize slab"
  define m where "m = minFreeChunks slab"
  define heads where "heads = freelist slab"
  note defs = n_def fcs_def cs_def m_def heads_def
  from pre have wf: "slab_wf slab c h L"
    and m: "0 < m" "m \<le> n" and ne: "heads ! nat m \<noteq> []"
    and full: "\<And>b blk. blocks h b = Some blk \<Longrightarrow> nfree blk < n \<or> (m = n \<and> heads ! nat n = [b])"
    by (auto simp: take_pre_def defs)
  from wf have ctx: "contexts h c = Some slab" and g: "geom n fcs"
    and len: "length heads = nat n + 1"
    and bk: "buckets_ok heads (nfree_of h)"
    and bi: "\<And>b blk. blocks h b = Some blk \<Longrightarrow> block_inv n fcs cs c L b blk"
    and nb: "nblocks slab = int (card (dom (blocks h)))"
    and mem: "mem_allocated slab = word_of_int (nblocks slab) * blockSize slab"
    and Lv: "\<And>p. p \<in> L \<Longrightarrow> \<exists>b i. b \<in> dom (blocks h) \<and> 0 \<le> i \<and> i < n \<and> p = Ptr b (payload_offs fcs i)"
    and fc: "fcs = Slab_CHUNKHDRSZ + MAXALIGN cs"
    by (auto simp: slab_wf_def defs)
  from ne obtain b rest where hd: "heads ! nat m = b # rest"
    by (cases "heads ! nat m") auto
  from m len have mlen: "nat m < length heads" by simp
  from hd have "b \<in> set (heads ! nat m)" by simp
  from buckets_okD1 [OF bk mlen this] m obtain blk where
    blk: "blocks h b = Some blk" and nf: "nfree blk = m"
    by (auto simp: nfree_of_eq_Some)
  from bi [OF blk] obtain fl where own: "block_slab blk = c"
    and ch: "free_chain n fcs (chunk_link blk) (firstFreeChunk blk) fl"
    and dist: "distinct fl" and lfl: "int (length fl) = nfree blk"
    and fl: "\<And>i. 0 \<le> i \<Longrightarrow> i < n \<Longrightarrow>
        (Ptr b (payload_offs fcs i) \<in> L \<longleftrightarrow> i \<notin> set fl) \<and>
        (i \<notin> set fl \<longrightarrow> chunk_hdr blk (chunk_offs fcs i) = Some (chunk_header cs b))"
    by (auto simp: block_inv_def)
  from lfl nf m obtain i fl' where fl_eq: "fl = i # fl'"
    by (cases fl) auto
  from ch fl_eq obtain j where i: "firstFreeChunk blk = i" "0 \<le> i" "i < n"
    and link: "chunk_link blk (payload_offs fcs i) = Some j"
    and ch': "free_chain n fcs (chunk_link blk) j fl'"
    by (auto split: option.splits)
  define p where "p = Ptr b (payload_offs fcs i)"
  define heads2 where
    "heads2 = (dlist_delete b heads)[nat (m - 1) := b # dlist_delete b heads ! nat (m - 1)]"
  define slab1 where "slab1 = slab\<lparr>minFreeChunks := m - 1, freelist := heads2\<rparr>"
  have m1len: "nat (m - 1) < length heads" using m mlen by simp
  have "length (freelist slab1) = nat (chunksPerBlock slab1) + 1"
    using len by (simp add: slab1_def heads2_def defs)
  moreover have "minFreeChunks slab1 \<noteq> 0 \<longrightarrow>
      0 < minFreeChunks slab1 \<and> minFreeChunks slab1 \<le> chunksPerBlock slab1 \<and>
      freelist slab1 ! nat (minFreeChunks slab1) \<noteq> []"
    using m m1len by (simp add: slab1_def heads2_def defs)
  ultimately obtain m' where um: "SlabAlloc_update_min slab1 = Some (slab1\<lparr>minFreeChunks := m'\<rparr>)"
    and mok: "min_ok (slab1\<lparr>minFreeChunks := m'\<rparr>)"
    and keep: "minFreeChunks slab1 \<noteq> 0 \<and> minFreeChunks slab1 \<noteq> chunksPerBlock slab1 \<longrightarrow>
                 m' = minFreeChunks slab1"
    using SlabAlloc_update_min_result [of slab1] by blast
  define h' where "h' = take_heap h c slab b blk j m'"
  define slab2 where "slab2 = slab\<lparr>freelist := heads2, minFreeChunks := m'\<rparr>"
  define blk' where "blk' = blk\<lparr>nfree := m - 1, firstFreeChunk := j,
      chunk_hdr := (chunk_hdr blk)(chunk_offs fcs i \<mapsto> chunk_header cs b)\<rparr>"
  define L' where "L' = insert p L"
  have take: "SlabAlloc_take h c = Inr (Some p, h')"
    unfolding p_def h'_def fcs_def i(1) [symmetric]
    using ctx m mlen hd blk link m1len um
    by (intro SlabAlloc_take_eq [where rest = rest]) (simp_all add: defs nf slab1_def heads2_def i)
  have h'_ctx: "contexts h' c = Some slab2"
    by (simp add: h'_def take_heap_def slab2_def heads2_def defs nf)
  have h'_blocks: "blocks h' = (blocks h)(b \<mapsto> blk')"
    by (simp add: h'_def take_heap_def blk'_def defs nf i)
  have s2: "chunksPerBlock slab2 = n" "fullChunkSize slab2 = fcs" "chunkSize slab2 = cs"
    "freelist slab2 = heads2" "nblocks slab2 = nblocks slab" "minFreeChunks slab2 = m'"
    "mem_allocated slab2 = mem_allocated slab" "blockSize slab2 = blockSize slab"
    by (simp_all add: slab2_def defs)
  have pL: "p \<notin> L"
    using fl [OF i(2,3)] by (simp add: p_def fl_eq)
  have idx_eq: "Ptr b (payload_offs fcs k) = p \<longleftrightarrow> k = i" if "0 \<le> k" "k < n" for k
    using payload_offs_inj [OF g that i(2,3)] by (auto simp: p_def)
  have bi_b: "block_inv n fcs cs c L' b blk'"
    unfolding block_inv_def
  proof (intro conjI exI [of _ fl'] allI impI)
    show "block_slab blk' = c" using own by (simp add: blk'_def)
    show "free_chain n fcs (chunk_link blk') (firstFreeChunk blk') fl'"
      using ch' by (simp add: blk'_def)
    show "distinct fl'" using dist fl_eq by simp
    show "int (length fl') = nfree blk'" using lfl nf fl_eq by (simp add: blk'_def)
  next
    fix k assume k: "0 \<le> k \<and> k < n"
    then show "(Ptr b (payload_offs fcs k) \<in> L') = (k \<notin> set fl')"
      using fl [of k] idx_eq [of k] dist by (auto simp: L'_def fl_eq)
  next
    fix k assume k: "0 \<le> k \<and> k < n" and nk: "k \<notin> set fl'"
    show "chunk_hdr blk' (chunk_offs fcs k) = Some (chunk_header cs b)"
    proof (cases "k = i")
      case True
      then show ?thesis by (simp add: blk'_def)
    next
      case False
      with k i g have "chunk_offs fcs k \<noteq> chunk_offs fcs i"
        using chunk_offs_inj [of n fcs k i] by auto
      moreover have "k \<notin> set fl" using nk False by (simp add: fl_eq)
      ultimately show ?thesis
        using fl [of k] k by (simp add: blk'_def)
    qed
  qed
  have bi_other: "block_inv n fcs cs c L' b' blk0" if "blocks h b' = Some blk0" "b' \<noteq> b" for b' blk0
  proof -
    have "block_inv n fcs cs c L' b' blk0 = block_inv n fcs cs c L b' blk0"
      using that(2) by (intro block_inv_cong_L) (auto simp: L'_def p_def)
    with bi [OF that(1)] show ?thesis by simp
  qed
  have bi': "block_inv n fcs cs c L' b' blk0" if "blocks h' b' = Some blk0" for b' blk0
    using that bi_b bi_other by (cases "b' = b") (auto simp: h'_blocks)
  have bk': "buckets_ok heads2 (nfree_of h')"
  proof -
    have "nfree_of h' = (nfree_of h)(b \<mapsto> m - 1)"
      using nfree_of_upd [OF h'_blocks] by (simp add: blk'_def)
    moreover have "buckets_ok heads2 ((nfree_of h)(b \<mapsto> m - 1))"
      unfolding heads2_def using bk m m1len by (intro buckets_ok_move) simp_all
    ultimately show ?thesis by simp
  qed
  have dom': "dom (blocks h') = dom (blocks h)"
    using blk by (auto simp: h'_blocks)
  have Lv': "\<exists>b i. b \<in> dom (blocks h') \<and> 0 \<le> i \<and> i < n \<and> q = Ptr b (payload_offs fcs i)"
    if "q \<in> L'" for q
  proof (cases "q = p")
    case True
    then show ?thesis using blk i by (auto simp: p_def dom')
  next
    case False
    with that have "q \<in> L" by (simp add: L'_def)
    from Lv [OF this] show ?thesis by (simp add: dom')
  qed
  have wf': "slab_wf slab2 c h' L'"
    unfolding slab_wf_def s2
    using h'_ctx g len fc bk' bi' nb mem Lv' by (simp add: dom' heads2_def)
  have eager: "nfree blk0 < n" if "blocks h' b' = Some blk0" for b' blk0
  proof (cases "b' = b")
    case True
    with that have "blk0 = blk'" by (simp add: h'_blocks)
    with m show ?thesis by (simp add: blk'_def)
  next
    case False
    with that have old: "blocks h b' = Some blk0" by (simp add: h'_blocks)
    from full [OF old] hd False show ?thesis by auto
  qed
  have mok': "min_ok slab2"
    using mok by (simp add: slab1_def slab2_def)
  have inv: "slab_inv c h' L'"
    unfolding slab_inv_def using wf' eager mok' s2(1) by blast
  have keep': "m \<noteq> 1 \<longrightarrow> m' = m - 1"
    using keep m by (simp add: slab1_def defs)
  show ?thesis
    using hd blk nf i link keep' take pL inv
    unfolding defs p_def h'_def L'_def
    by (intro exI [of _ b] exI [of _ rest] exI [of _ blk] exI [of _ j] exI [of _ m']) simp
qed

lemma SlabAlloc_init_chunks_fields:
  "nfree (SlabAlloc_init_chunks slab block blk idx) = nfree blk \<and>
   firstFreeChunk (SlabAlloc_init_chunks slab block blk idx) = firstFreeChunk blk \<and>
   block_slab (SlabAlloc_init_chunks slab block blk idx) = block_slab blk \<and>
   chunk_hdr (SlabAlloc_init_chunks slab block blk idx) = chunk_hdr blk"
proof (induction slab block blk idx rule: SlabAlloc_init_chunks.induct)
  case (1 slab block blk idx)
  show ?case
  proof (cases "idx < chunksPerBlock slab")
    case True
    with "1.IH" show ?thesis
      by (subst (1 2 3 4) SlabAlloc_init_chunks.simps) simp
  next
    case False
    then show ?thesis
      by (subst (1 2 3 4) SlabAlloc_init_chunks.simps) simp
  qed
qed

lemma SlabAlloc_init_chunks_links:
  assumes "geom (chunksPerBlock slab) (fullChunkSize slab)" "0 \<le> idx" "0 \<le> k" "k < chunksPerBlock slab"
  shows "chunk_link (SlabAlloc_init_chunks slab block blk idx) (payload_offs (fullChunkSize slab) k) =
           (if idx \<le> k then Some (k + 1) else chunk_link blk (payload_offs (fullChunkSize slab) k))"
  using assms
proof (induction slab block blk idx rule: SlabAlloc_init_chunks.induct)
  case (1 slab block blk idx)
  show ?case
  proof (cases "idx < chunksPerBlock slab")
    case True
    show ?thesis
    proof (cases "k = idx")
      case keq: True
      from "1.IH" [OF True] "1.prems" True keq show ?thesis
        by (subst SlabAlloc_init_chunks.simps) simp
    next
      case kne: False
      then have "payload_offs (fullChunkSize slab) k \<noteq> payload_offs (fullChunkSize slab) idx"
        using payload_offs_inj [OF "1.prems"(1) "1.prems"(3,4) "1.prems"(2) True] by auto
      with "1.IH" [OF True] "1.prems" True kne show ?thesis
        by (subst SlabAlloc_init_chunks.simps) auto
    qed
  next
    case False
    with "1.prems" show ?thesis
      by (subst SlabAlloc_init_chunks.simps) simp
  qed
qed

lemma new_block_fields:
  "nfree (new_block slab c a) = chunksPerBlock slab"
  "firstFreeChunk (new_block slab c a) = 0"
  "block_slab (new_block slab c a) = c"
  "chunk_hdr (new_block slab c a) = Map.empty"
  by (simp_all add: new_block_def SlabAlloc_init_chunks_fields)

lemma new_block_links:
  "geom (chunksPerBlock slab) (fullChunkSize slab) \<Longrightarrow> 0 \<le> k \<Longrightarrow> k < chunksPerBlock slab \<Longrightarrow>
   chunk_link (new_block slab c a) (payload_offs (fullChunkSize slab) k) = Some (k + 1)"
  by (simp add: new_block_def SlabAlloc_init_chunks_links)

lemma SlabAlloc_new_block_inv:
  assumes wf: "slab_wf slab c h L"
    and eager: "\<forall>b blk. blocks h b = Some blk \<longrightarrow> nfree blk < chunksPerBlock slab"
    and fresh: "a \<notin> dom (blocks h)"
  shows "SlabAlloc_new_block h c slab a = Inr (new_block_heap h c slab a) \<and>
         (\<exists>slab1. take_pre slab1 c (new_block_heap h c slab a) L \<and>
            minFreeChunks slab1 = chunksPerBlock slab \<and>
            chunksPerBlock slab1 = chunksPerBlock slab \<and>
            fullChunkSize slab1 = fullChunkSize slab \<and>
            chunkSize slab1 = chunkSize slab \<and>
            nblocks slab1 = nblocks slab + 1 \<and>
            mem_allocated slab1 = mem_allocated slab + blockSize slab \<and>
            blockSize slab1 = blockSize slab \<and>
            freelist slab1 ! nat (chunksPerBlock slab) = [a])"
proof -
  define n where "n = chunksPerBlock slab"
  define fcs where "fcs = fullChunkSize slab"
  define cs where "cs = chunkSize slab"
  define heads where "heads = freelist slab"
  note defs = n_def fcs_def cs_def heads_def
  from wf have ctx: "contexts h c = Some slab" and g: "geom n fcs"
    and len: "length heads = nat n + 1"
    and bk: "buckets_ok heads (nfree_of h)"
    and bi: "\<And>b blk. blocks h b = Some blk \<Longrightarrow> block_inv n fcs cs c L b blk"
    and nb: "nblocks slab = int (card (dom (blocks h)))"
    and mem: "mem_allocated slab = word_of_int (nblocks slab) * blockSize slab"
    and Lv: "\<And>p. p \<in> L \<Longrightarrow> \<exists>b i. b \<in> dom (blocks h) \<and> 0 \<le> i \<and> i < n \<and> p = Ptr b (payload_offs fcs i)"
    and fc: "fcs = Slab_CHUNKHDRSZ + MAXALIGN cs"
    by (auto simp: slab_wf_def defs)
  from g have n0: "0 < n" by (simp add: geom_def)
  have eager': "nfree blk < n" if "blocks h b = Some blk" for b blk
    using eager that by (simp add: defs)
  have nlen: "nat n < length heads" using len by simp
  define heads1 where "heads1 = heads[nat n := a # heads ! nat n]"
  define slab1 where "slab1 = slab\<lparr>freelist := heads1, minFreeChunks := n,
      nblocks := nblocks slab + 1, mem_allocated := mem_allocated slab + blockSize slab\<rparr>"
  define blk where "blk = new_block slab c a"
  define h1 where "h1 = new_block_heap h c slab a"
  have eq: "SlabAlloc_new_block h c slab a = Inr h1"
    using n0 nlen
    by (simp add: SlabAlloc_new_block_def Let_def h1_def new_block_heap_def new_block_def defs)
  have h1_ctx: "contexts h1 c = Some slab1"
    by (simp add: h1_def new_block_heap_def slab1_def heads1_def defs)
  have h1_blocks: "blocks h1 = (blocks h)(a \<mapsto> blk)"
    by (simp add: h1_def new_block_heap_def blk_def)
  have s1: "chunksPerBlock slab1 = n" "fullChunkSize slab1 = fcs" "chunkSize slab1 = cs"
    "freelist slab1 = heads1" "nblocks slab1 = nblocks slab + 1" "minFreeChunks slab1 = n"
    "mem_allocated slab1 = mem_allocated slab + blockSize slab" "blockSize slab1 = blockSize slab"
    by (simp_all add: slab1_def defs)
  have empty_n: "heads ! nat n = []"
  proof (rule ccontr)
    assume "heads ! nat n \<noteq> []"
    then obtain b where "b \<in> set (heads ! nat n)"
      by (cases "heads ! nat n") auto
    from buckets_okD1 [OF bk nlen this] n0 obtain blk0 where
      "blocks h b = Some blk0" "nfree blk0 = n"
      by (auto simp: nfree_of_eq_Some)
    with eager' [of b blk0] show False by simp
  qed
  have aL: "Ptr a x \<notin> L" for x
  proof
    assume "Ptr a x \<in> L"
    from Lv [OF this] fresh show False by auto
  qed
  have bi_a: "block_inv n fcs cs c L a blk"
    unfolding block_inv_def
  proof (intro conjI exI [of _ "[0..n - 1]"] allI impI)
    show "block_slab blk = c" by (simp add: blk_def new_block_fields)
    have "free_chain n fcs (chunk_link blk) 0 [0..n - 1]"
      using g n0 by (intro free_chain_upto) (auto simp: blk_def defs new_block_links)
    then show "free_chain n fcs (chunk_link blk) (firstFreeChunk blk) [0..n - 1]"
      by (simp add: blk_def new_block_fields)
    show "distinct [0..n - 1]" by simp
    show "int (length [0..n - 1]) = nfree blk"
      using n0 by (simp add: blk_def new_block_fields defs)
  next
    fix i assume "0 \<le> i \<and> i < n"
    then show "(Ptr a (payload_offs fcs i) \<in> L) = (i \<notin> set [0..n - 1])"
      using aL by simp
  next
    fix i assume "0 \<le> i \<and> i < n" "i \<notin> set [0..n - 1]"
    then show "chunk_hdr blk (chunk_offs fcs i) = Some (chunk_header cs a)"
      by simp
  qed
  have bi1: "block_inv n fcs cs c L b' blk0" if "blocks h1 b' = Some blk0" for b' blk0
    using that bi_a bi by (cases "b' = a") (auto simp: h1_blocks)
  have bk1: "buckets_ok heads1 (nfree_of h1)"
  proof -
    have "nfree_of h1 = (nfree_of h)(a \<mapsto> n)"
      using nfree_of_upd [OF h1_blocks] by (simp add: blk_def new_block_fields defs)
    moreover have "buckets_ok heads1 ((nfree_of h)(a \<mapsto> n))"
      unfolding heads1_def using bk n0 nlen fresh by (intro buckets_ok_push) auto
    ultimately show ?thesis by simp
  qed
  have fin: "finite (dom (blocks h))" using wf by (rule slab_wf_finite)
  have card1: "int (card (dom (blocks h1))) = nblocks slab + 1"
    using fin fresh nb by (simp add: h1_blocks)
  have mem1: "mem_allocated slab + blockSize slab = word_of_int (nblocks slab + 1) * blockSize slab"
    using mem by (simp add: algebra_simps)
  have Lv1: "\<exists>b i. b \<in> dom (blocks h1) \<and> 0 \<le> i \<and> i < n \<and> q = Ptr b (payload_offs fcs i)"
    if "q \<in> L" for q
    using Lv [OF that] by (auto simp: h1_blocks)
  have wf1: "slab_wf slab1 c h1 L"
    unfolding slab_wf_def s1
    using h1_ctx g len fc bk1 bi1 card1 mem1 Lv1 by (simp add: heads1_def)
  have full1: "nfree blk0 < n \<or> (n = n \<and> heads1 ! nat n = [b'])"
    if "blocks h1 b' = Some blk0" for b' blk0
  proof (cases "b' = a")
    case True
    then show ?thesis using nlen empty_n by (simp add: heads1_def)
  next
    case False
    with that eager' [of b' blk0] show ?thesis by (simp add: h1_blocks)
  qed
  have "take_pre slab1 c h1 L"
    unfolding take_pre_def s1 using wf1 n0 nlen full1 by (simp add: heads1_def)
  moreover have "heads1 ! nat n = [a]"
    using nlen empty_n by (simp add: heads1_def)
  ultimately show ?thesis
    using eq s1 unfolding h1_def defs by blast
qed

lemma SlabFree_update_min_result:
  assumes "0 \<le> minFreeChunks slab" "nat (minFreeChunks slab) < length (freelist slab)"
  shows "SlabFree_update_min slab v = Some (slab\<lparr>minFreeChunks := free_min slab v\<rparr>)"
  using assms by (simp add: SlabFree_update_min_def free_min_def dlist_is_empty_def)

lemma SlabFree_result:
  assumes ctx: "contexts h c = Some slab"
    and g: "geom (chunksPerBlock slab) (fullChunkSize slab)"
    and i: "0 \<le> i" "i < chunksPerBlock slab"
    and blk: "blocks h b = Some blk" and own: "block_slab blk = c"
    and hdr: "chunk_hdr blk (chunk_offs (fullChunkSize slab) i) = Some (chunk_header cs b)"
    and min: "0 \<le> minFreeChunks slab" "nat (minFreeChunks slab) < length (freelist slab)"
    and nf: "0 \<le> nfree blk" "nat (nfree blk + 1) < length (freelist slab)"
  shows "\<exists>h'. SlabFree h (Ptr b (payload_offs (fullChunkSize slab) i)) = Inr h' \<and>
           contexts h' = (contexts h)(c \<mapsto> free_slab slab b blk) \<and>
           blocks h' = (if nfree blk + 1 = chunksPerBlock slab then (blocks h)(b := None)
                        else (blocks h)(b \<mapsto> free_block (fullChunkSize slab) blk i))"
proof -
  have idx: "SlabChunkIndex slab b (Ptr b (chunk_offs (fullChunkSize slab) i)) = Some (word_of_int i)"
    using g chunk_index_roundtrip [OF g i]
    by (simp add: SlabChunkIndex_def SlabBlockStart_def geom_def)
  have conv: "Size_to_int (word_of_int i) = i"
    using g i by (intro Size_to_int_idx) (auto simp: geom_def)
  have um: "SlabFree_update_min (slab\<lparr>freelist := dlist_delete b (freelist slab)\<rparr>) v =
      Some (slab\<lparr>freelist := dlist_delete b (freelist slab),
                 minFreeChunks := free_min (slab\<lparr>freelist := dlist_delete b (freelist slab)\<rparr>) v\<rparr>)" for v
    using SlabFree_update_min_result [of "slab\<lparr>freelist := dlist_delete b (freelist slab)\<rparr>" v] min
    by simp
  show ?thesis
    using ctx blk own hdr idx conv um nf
    by (simp add: SlabFree_def Let_def load_hdr_def store_int32_def sys_free_def
        MemoryChunkGetBlock_def chunk_header_def MemoryChunkSetHdrMask_def
        free_slab_def free_block_def)
qed

lemma free_block_fields [simp]:
  "nfree (free_block fcs blk i) = nfree blk + 1"
  "firstFreeChunk (free_block fcs blk i) = i"
  "block_slab (free_block fcs blk i) = block_slab blk"
  "chunk_hdr (free_block fcs blk i) = chunk_hdr blk"
  "chunk_link (free_block fcs blk i) = (chunk_link blk)(payload_offs fcs i \<mapsto> firstFreeChunk blk)"
  by (simp_all add: free_block_def)

lemma SlabFree_inv:
  assumes inv: "slab_inv c h L" and pL: "p \<in> L"
  shows "\<exists>slab b blk i h'.
      contexts h c = Some slab \<and> blocks h b = Some blk \<and>
      0 \<le> i \<and> i < chunksPerBlock slab \<and>
      p = Ptr b (payload_offs (fullChunkSize slab) i) \<and>
      chunk_hdr blk (chunk_offs (fullChunkSize slab) i) = Some (chunk_header (chunkSize slab) b) \<and>
      block_slab blk = c \<and>
      SlabFree h p = Inr h' \<and>
      contexts h' = (contexts h)(c \<mapsto> free_slab slab b blk) \<and>
      blocks h' = (if nfree blk + 1 = chunksPerBlock slab then (blocks h)(b := None)
                   else (blocks h)(b \<mapsto> free_block (fullChunkSize slab) blk i)) \<and>
      slab_inv c h' (L - {p})"
proof -
  from inv obtain slab where wf: "slab_wf slab c h L"
    and eager0: "\<forall>b blk. blocks h b = Some blk \<longrightarrow> nfree blk < chunksPerBlock slab"
    and mok: "min_ok slab"
    by (auto simp: slab_inv_def)
  define n where "n = chunksPerBlock slab"
  define fcs where "fcs = fullChunkSize slab"
  define cs where "cs = chunkSize slab"
  define m where "m = minFreeChunks slab"
  define heads where "heads = freelist slab"
  note defs = n_def fcs_def cs_def m_def heads_def
  have eager: "nfree blk < n" if "blocks h b = Some blk" for b blk
    using eager0 that by (simp add: defs)
  from wf have ctx: "contexts h c = Some slab" and g: "geom n fcs"
    and len: "length heads = nat n + 1"
    and bk: "buckets_ok heads (nfree_of h)"
    and bi: "\<And>b blk. blocks h b = Some blk \<Longrightarrow> block_inv n fcs cs c L b blk"
    and nb: "nblocks slab = int (card (dom (blocks h)))"
    and mem: "mem_allocated slab = word_of_int (nblocks slab) * blockSize slab"
    and Lv: "\<And>p. p \<in> L \<Longrightarrow> \<exists>b i. b \<in> dom (blocks h) \<and> 0 \<le> i \<and> i < n \<and> p = Ptr b (payload_offs fcs i)"
    and fc: "fcs = Slab_CHUNKHDRSZ + MAXALIGN cs"
    by (auto simp: slab_wf_def defs)
  from mok have mr: "0 \<le> m" "m < n" and mne: "m = 0 \<or> heads ! nat m \<noteq> []"
    using g by (auto simp: min_ok_def defs geom_def)
  from Lv [OF pL] obtain b i blk where blk: "blocks h b = Some blk"
    and i: "0 \<le> i" "i < n" and p: "p = Ptr b (payload_offs fcs i)"
    by auto
  from bi [OF blk] obtain fl where own: "block_slab blk = c"
    and ch: "free_chain n fcs (chunk_link blk) (firstFreeChunk blk) fl"
    and dist: "distinct fl" and lfl: "int (length fl) = nfree blk"
    and fl: "\<And>i. 0 \<le> i \<Longrightarrow> i < n \<Longrightarrow>
        (Ptr b (payload_offs fcs i) \<in> L \<longleftrightarrow> i \<notin> set fl) \<and>
        (i \<notin> set fl \<longrightarrow> chunk_hdr blk (chunk_offs fcs i) = Some (chunk_header cs b))"
    by (auto simp: block_inv_def)
  from fl [OF i] pL p have ifl: "i \<notin> set fl"
    and hdr: "chunk_hdr blk (chunk_offs fcs i) = Some (chunk_header cs b)"
    by auto
  define v where "v = nfree blk"
  have nfb: "nfree_of h b = Some v" using blk by (simp add: v_def)
  from buckets_okD2 [OF bk nfb] have v0: "0 \<le> v" and vlen: "nat v < length heads"
    and bin: "b \<in> set (heads ! nat v)"
    by auto
  from eager [OF blk] have vn: "v < n" by (simp add: v_def)
  have v1len: "nat (v + 1) < length heads" using v0 vn len by simp
  have mlen: "nat m < length heads" using mr len by simp
  from SlabFree_result [OF ctx g [unfolded defs] i [unfolded defs] blk own
      hdr [unfolded defs] mr(1) [unfolded defs] mlen [unfolded defs]
      v0 [unfolded v_def] v1len [unfolded v_def defs]]
  obtain h' where free: "SlabFree h p = Inr h'"
    and h'_ctx: "contexts h' = (contexts h)(c \<mapsto> free_slab slab b blk)"
    and h'_blocks: "blocks h' = (if v + 1 = n then (blocks h)(b := None)
                                 else (blocks h)(b \<mapsto> free_block fcs blk i))"
    by (auto simp: p defs v_def)
  define heads1 where "heads1 = dlist_delete b heads"
  define m' where "m' = free_min (slab\<lparr>freelist := heads1\<rparr>) (v + 1)"
  define L' where "L' = L - {p}"
  have m'_eq: "m' = (if m = v \<and> heads1 ! nat m = [] then (if v + 1 = n then 0 else m + 1) else m)"
    unfolding m'_def free_min_def defs by auto
  have idx_eq: "Ptr b (payload_offs fcs k) = p \<longleftrightarrow> k = i" if "0 \<le> k" "k < n" for k
    using payload_offs_inj [OF g that i] by (auto simp: p)
  have bi_other: "block_inv n fcs cs c L' b' blk0" if "blocks h b' = Some blk0" "b' \<noteq> b" for b' blk0
  proof -
    have "block_inv n fcs cs c L' b' blk0 = block_inv n fcs cs c L b' blk0"
      using that(2) by (intro block_inv_cong_L) (auto simp: L'_def p)
    with bi [OF that(1)] show ?thesis by simp
  qed
  have stay: "heads1 ! nat m \<noteq> []" if "0 < m" "m \<noteq> v"
  proof -
    from that mne have ne: "heads ! nat m \<noteq> []" by simp
    have "nfree_of h b \<noteq> Some (int (nat m))"
      using nfb that mr by simp
    from buckets_ok_notin [OF bk mlen this] have "removeAll b (heads ! nat m) = heads ! nat m"
      by simp
    with ne mlen show ?thesis by (simp add: heads1_def)
  qed
  have fin: "finite (dom (blocks h))" using wf by (rule slab_wf_finite)
  have "slab_inv c h' L'"
  proof (cases "v + 1 = n")
    case True
    define slab' where "slab' = slab\<lparr>freelist := heads1, minFreeChunks := m',
        nblocks := nblocks slab - 1, mem_allocated := mem_allocated slab - blockSize slab\<rparr>"
    have fs: "free_slab slab b blk = slab'"
      using True by (simp add: free_slab_def slab'_def Let_def heads1_def m'_def v_def defs)
    have hb: "blocks h' = (blocks h)(b := None)"
      using True by (simp add: h'_blocks)
    have s': "chunksPerBlock slab' = n" "fullChunkSize slab' = fcs" "chunkSize slab' = cs"
      "freelist slab' = heads1" "nblocks slab' = nblocks slab - 1" "minFreeChunks slab' = m'"
      "mem_allocated slab' = mem_allocated slab - blockSize slab" "blockSize slab' = blockSize slab"
      by (simp_all add: slab'_def defs)
    have bk': "buckets_ok heads1 (nfree_of h')"
      using buckets_ok_delete [OF bk, of b] nfree_of_del [OF hb] by (simp add: heads1_def)
    have bi': "block_inv n fcs cs c L' b' blk0" if "blocks h' b' = Some blk0" for b' blk0
      using that bi_other [of b' blk0] by (cases "b' = b") (auto simp: hb)
    have card': "nblocks slab - 1 = int (card (dom (blocks h')))"
    proof -
      have "b \<in> dom (blocks h)" using blk by auto
      with fin have "0 < card (dom (blocks h))"
        by (auto simp: card_gt_0_iff)
      moreover have "card (dom (blocks h')) = card (dom (blocks h)) - 1"
        using \<open>b \<in> dom (blocks h)\<close> by (simp add: hb)
      ultimately show ?thesis using nb by simp
    qed
    have mem': "mem_allocated slab - blockSize slab = word_of_int (nblocks slab - 1) * blockSize slab"
      using mem by (simp add: algebra_simps)
    have Lv': "\<exists>b i. b \<in> dom (blocks h') \<and> 0 \<le> i \<and> i < n \<and> q = Ptr b (payload_offs fcs i)"
      if "q \<in> L'" for q
    proof -
      from that have qL: "q \<in> L" and qp: "q \<noteq> p" by (auto simp: L'_def)
      from Lv [OF qL] obtain b' k where q: "b' \<in> dom (blocks h)" "0 \<le> k" "k < n"
        "q = Ptr b' (payload_offs fcs k)" by auto
      have "b' \<noteq> b"
      proof
        assume "b' = b"
        with q qp p have "k \<noteq> i" by auto
        have "\<forall>x\<in>set fl. 0 \<le> x \<and> x < n"
          using free_chain_range [OF ch] by blast
        from distinct_all_but_one [OF dist this _ i ifl q(2,3) \<open>k \<noteq> i\<close>] lfl True
        have "k \<in> set fl" by (simp add: v_def)
        with fl [OF q(2,3)] qL q(4) \<open>b' = b\<close> show False by simp
      qed
      with q show ?thesis by (auto simp: hb)
    qed
    have wf': "slab_wf slab' c h' L'"
      unfolding slab_wf_def s'
      using g len fc bk' bi' card' mem' Lv' by (simp add: h'_ctx fs heads1_def)
    have eager': "nfree blk0 < n" if "blocks h' b' = Some blk0" for b' blk0
      using that eager [of b' blk0] by (cases "b' = b") (auto simp: hb)
    have mok': "min_ok slab'"
    proof (cases "m = v \<and> heads1 ! nat m = []")
      case True
      with \<open>v + 1 = n\<close> have "m' = 0" unfolding m'_eq by auto
      then show ?thesis by (simp add: min_ok_def s')
    next
      case False
      then have "m' = m" unfolding m'_eq by auto
      moreover have "heads1 ! nat m \<noteq> []" if "0 < m"
        using that False stay by auto
      ultimately show ?thesis using mr by (auto simp: min_ok_def s')
    qed
    show ?thesis
      unfolding slab_inv_def using wf' eager' mok' s'(1) by blast
  next
    case False
    define heads2 where "heads2 = heads1[nat (v + 1) := b # heads1 ! nat (v + 1)]"
    define slab' where "slab' = slab\<lparr>minFreeChunks := m', freelist := heads2\<rparr>"
    define blk' where "blk' = free_block fcs blk i"
    have fs: "free_slab slab b blk = slab'"
      using False by (simp add: free_slab_def slab'_def Let_def heads1_def heads2_def m'_def v_def defs)
    have hb: "blocks h' = (blocks h)(b \<mapsto> blk')"
      using False by (simp add: h'_blocks blk'_def)
    have s': "chunksPerBlock slab' = n" "fullChunkSize slab' = fcs" "chunkSize slab' = cs"
      "freelist slab' = heads2" "nblocks slab' = nblocks slab" "minFreeChunks slab' = m'"
      "mem_allocated slab' = mem_allocated slab" "blockSize slab' = blockSize slab"
      by (simp_all add: slab'_def defs)
    have bk': "buckets_ok heads2 (nfree_of h')"
    proof -
      have "nfree_of h' = (nfree_of h)(b \<mapsto> v + 1)"
        using nfree_of_upd [OF hb] by (simp add: blk'_def v_def)
      moreover have "buckets_ok heads2 ((nfree_of h)(b \<mapsto> v + 1))"
        unfolding heads2_def heads1_def using bk v0 v1len by (intro buckets_ok_move) simp_all
      ultimately show ?thesis by simp
    qed
    have bi_b: "block_inv n fcs cs c L' b blk'"
      unfolding block_inv_def
    proof (intro conjI exI [of _ "i # fl"] allI impI)
      show "block_slab blk' = c" using own by (simp add: blk'_def)
      have "free_chain n fcs ((chunk_link blk)(payload_offs fcs i \<mapsto> firstFreeChunk blk))
              (firstFreeChunk blk) fl"
        using ch free_chain_upd_other [OF g i ifl] by simp
      then show "free_chain n fcs (chunk_link blk') (firstFreeChunk blk') (i # fl)"
        using i by (simp add: blk'_def)
      show "distinct (i # fl)" using dist ifl by simp
      show "int (length (i # fl)) = nfree blk'" using lfl by (simp add: blk'_def)
    next
      fix k assume k: "0 \<le> k \<and> k < n"
      then show "(Ptr b (payload_offs fcs k) \<in> L') = (k \<notin> set (i # fl))"
        using fl [of k] idx_eq [of k] by (auto simp: L'_def)
    next
      fix k assume k: "0 \<le> k \<and> k < n" and nk: "k \<notin> set (i # fl)"
      then show "chunk_hdr blk' (chunk_offs fcs k) = Some (chunk_header cs b)"
        using fl [of k] by (simp add: blk'_def)
    qed
    have bi': "block_inv n fcs cs c L' b' blk0" if "blocks h' b' = Some blk0" for b' blk0
      using that bi_b bi_other by (cases "b' = b") (auto simp: hb)
    have dom': "dom (blocks h') = dom (blocks h)"
      using blk by (auto simp: hb)
    have Lv': "\<exists>b i. b \<in> dom (blocks h') \<and> 0 \<le> i \<and> i < n \<and> q = Ptr b (payload_offs fcs i)"
      if "q \<in> L'" for q
      using Lv [of q] that by (simp add: dom' L'_def)
    have wf': "slab_wf slab' c h' L'"
      unfolding slab_wf_def s'
      using g len fc bk' bi' nb mem Lv' by (simp add: h'_ctx fs dom' heads2_def heads1_def)
    have eager': "nfree blk0 < n" if "blocks h' b' = Some blk0" for b' blk0
    proof (cases "b' = b")
      case True
      with that have "blk0 = blk'" by (simp add: hb)
      with False vn show ?thesis by (simp add: blk'_def v_def)
    next
      case False
      with that eager [of b' blk0] show ?thesis by (simp add: hb)
    qed
    have h2len: "length heads2 = length heads" by (simp add: heads2_def heads1_def)
    have h2v: "heads2 ! nat (v + 1) \<noteq> []"
      using v1len by (simp add: heads2_def heads1_def)
    have h2o: "heads2 ! k = heads1 ! k" if "k \<noteq> nat (v + 1)" for k
      using that by (simp add: heads2_def)
    have mok': "min_ok slab'"
    proof (cases "m = v \<and> heads1 ! nat m = []")
      case True
      with \<open>v + 1 \<noteq> n\<close> have "m' = v + 1" unfolding m'_eq by auto
      with h2v v0 vn False show ?thesis by (simp add: min_ok_def s')
    next
      case F: False
      then have e: "m' = m" unfolding m'_eq by auto
      have "heads2 ! nat m \<noteq> []" if "0 < m"
      proof (cases "nat m = nat (v + 1)")
        case True
        with h2v show ?thesis by simp
      next
        case False
        with h2o [of "nat m"] F stay that show ?thesis by auto
      qed
      with e mr show ?thesis by (auto simp: min_ok_def s')
    qed
    show ?thesis
      unfolding slab_inv_def using wf' eager' mok' s'(1) by blast
  qed
  then show ?thesis
    using ctx blk i p hdr own free h'_ctx h'_blocks
    unfolding L'_def defs v_def
    by (intro exI [of _ slab] exI [of _ b] exI [of _ blk] exI [of _ i] exI [of _ h']) simp
qed

lemma Size_to_int_less: "Size_to_int w < 2 ^ 31"
  using sint_lt [of "ucast w :: 32 word"] by (simp add: Size_to_int_def)

lemma Size_to_int_le_uint: "Size_to_int w \<le> uint w"
proof -
  have "- (2 ^ 31) \<le> (0 :: int)" by simp
  also have "0 \<le> uint (ucast w :: 32 word)" by simp
  finally have "sint (ucast w :: 32 word) \<le> uint (ucast w :: 32 word)"
    by (simp add: sint_uint signed_take_bit_int_less_eq_self_iff)
  also have "\<dots> \<le> uint w"
    by (simp add: unsigned_ucast_eq take_bit_int_less_eq_self_iff)
  finally show ?thesis by (simp add: Size_to_int_def)
qed

lemma buckets_ok_empty: "buckets_ok (replicate k []) Map.empty"
  by (simp add: buckets_ok_def)

lemma SlabContextCreate_inv:
  assumes cr: "SlabContextCreate empty_heap (Some c) bs cs0 = Inr (c', h)"
    and pos: "0 < chunksPerBlock_of h c"
  shows "c' = c \<and> slab_inv c h {} \<and> blocks h = Map.empty \<and>
         (\<exists>slab. contexts h c = Some slab \<and>
            chunkSize slab = (if cs0 < sizeof_int then sizeof_int else cs0) \<and>
            blockSize slab = bs \<and> minFreeChunks slab = 0 \<and> nblocks slab = 0 \<and>
            mem_allocated slab = 0)"
proof -
  define cs where "cs = (if cs0 < sizeof_int then sizeof_int else cs0)"
  define fcs where "fcs = Slab_CHUNKHDRSZ + MAXALIGN cs"
  define q where "q = (bs - sizeof_SlabBlock) div fcs"
  define n where "n = Size_to_int q"
  define slab where "slab = \<lparr>mem_allocated = 0, chunkSize = cs, fullChunkSize = fcs,
      blockSize = bs, chunksPerBlock = n, minFreeChunks = 0, nblocks = 0,
      freelist = replicate (nat (n + 1)) dlist_init\<rparr>"
  from cr have f0: "fcs \<noteq> 0" and c': "c' = c"
    and h: "h = empty_heap\<lparr>contexts := (contexts empty_heap)(c \<mapsto> slab)\<rparr>"
    by (auto simp: SlabContextCreate_def Let_def slab_def n_def q_def fcs_def cs_def
        split: if_splits)
  have ctx: "contexts h c = Some slab" by (simp add: h)
  have bl: "blocks h = Map.empty" by (simp add: h empty_heap_def)
  from pos ctx have n0: "0 < n" by (simp add: chunksPerBlock_of_def slab_def)
  have "nat n \<le> unat q"
    using Size_to_int_le_uint [of q] by (simp add: n_def nat_le_iff)
  then have "nat n * unat fcs \<le> unat q * unat fcs"
    by (rule mult_le_mono1)
  also have "\<dots> \<le> unat (bs - sizeof_SlabBlock)"
    by (simp add: q_def unat_div)
  also have "\<dots> < 2 ^ 64"
    using unsigned_less [of "bs - sizeof_SlabBlock", where 'a = nat] by simp
  finally have g: "geom n fcs"
    using n0 f0 Size_to_int_less [of q] by (simp add: geom_def n_def)
  have nf: "nfree_of h = Map.empty"
    by (simp add: nfree_of_def bl)
  have wf: "slab_wf slab c h {}"
    unfolding slab_wf_def
    using ctx g n0 buckets_ok_empty [of "nat (n + 1)"]
    by (simp add: slab_def nf bl fcs_def dlist_init_def nat_add_distrib)
  have "slab_inv c h {}"
    unfolding slab_inv_def using wf by (intro exI [of _ slab]) (simp add: bl min_ok_def slab_def)
  with c' bl ctx show ?thesis
    by (auto simp: slab_def cs_def)
qed

subsection \<open>SlabAlloc as a whole\<close>

lemma SlabAlloc_wrong_size:
  "contexts h c = Some slab \<Longrightarrow> sz \<noteq> chunkSize slab \<Longrightarrow>
   SlabAlloc h c sz sys = Inl (Raised UnexpectedAllocChunkSize h)"
  by (simp add: SlabAlloc_def)

lemma SlabAlloc_null:
  "contexts h c = Some slab \<Longrightarrow> minFreeChunks slab = 0 \<Longrightarrow>
   SlabAlloc h c (chunkSize slab) None = Inr (None, h)"
  by (simp add: SlabAlloc_def)

lemma SlabAlloc_old_block:
  assumes inv: "slab_inv c h L" and ctx: "contexts h c = Some slab"
    and m: "minFreeChunks slab \<noteq> 0"
  shows "\<exists>b rest blk j m'.
      freelist slab ! nat (minFreeChunks slab) = b # rest \<and> blocks h b = Some blk \<and>
      nfree blk = minFreeChunks slab \<and>
      0 \<le> firstFreeChunk blk \<and> firstFreeChunk blk < chunksPerBlock slab \<and>
      chunk_link blk (payload_offs (fullChunkSize slab) (firstFreeChunk blk)) = Some j \<and>
      (minFreeChunks slab \<noteq> 1 \<longrightarrow> m' = minFreeChunks slab - 1) \<and>
      SlabAlloc h c (chunkSize slab) sys =
        Inr (Some (Ptr b (payload_offs (fullChunkSize slab) (firstFreeChunk blk))),
             take_heap h c slab b blk j m') \<and>
      Ptr b (payload_offs (fullChunkSize slab) (firstFreeChunk blk)) \<notin> L \<and>
      slab_inv c (take_heap h c slab b blk j m')
        (insert (Ptr b (payload_offs (fullChunkSize slab) (firstFreeChunk blk))) L)"
proof -
  from inv ctx have "take_pre slab c h L"
    using m by (auto simp: slab_inv_def intro!: slab_inv_take_pre simp: slab_wf_def)
  from SlabAlloc_take_inv [OF this] ctx m show ?thesis
    by (simp add: SlabAlloc_def)
qed

lemma SlabAlloc_fresh_block:
  assumes inv: "slab_inv c h L" and ctx: "contexts h c = Some slab"
    and m: "minFreeChunks slab = 0" and fresh: "a \<notin> dom (blocks h)"
  shows "\<exists>slab1 j m'.
      take_pre slab1 c (new_block_heap h c slab a) L \<and>
      contexts (new_block_heap h c slab a) c = Some slab1 \<and>
      chunksPerBlock slab1 = chunksPerBlock slab \<and> fullChunkSize slab1 = fullChunkSize slab \<and>
      chunkSize slab1 = chunkSize slab \<and>
      minFreeChunks slab1 = chunksPerBlock slab \<and>
      (chunksPerBlock slab \<noteq> 1 \<longrightarrow> m' = chunksPerBlock slab - 1) \<and>
      chunk_link (new_block slab c a) (payload_offs (fullChunkSize slab) 0) = Some j \<and>
      SlabAlloc h c (chunkSize slab) (Some a) =
        Inr (Some (Ptr a (payload_offs (fullChunkSize slab) 0)),
             take_heap (new_block_heap h c slab a) c slab1 a (new_block slab c a) j m') \<and>
      Ptr a (payload_offs (fullChunkSize slab) 0) \<notin> L \<and>
      slab_inv c (take_heap (new_block_heap h c slab a) c slab1 a (new_block slab c a) j m')
        (insert (Ptr a (payload_offs (fullChunkSize slab) 0)) L)"
proof -
  from inv ctx have wf: "slab_wf slab c h L"
    and eager: "\<forall>b blk. blocks h b = Some blk \<longrightarrow> nfree blk < chunksPerBlock slab"
    by (auto simp: slab_inv_def slab_wf_def)
  define h1 where "h1 = new_block_heap h c slab a"
  from SlabAlloc_new_block_inv [OF wf eager fresh] obtain slab1 where
    nb: "SlabAlloc_new_block h c slab a = Inr h1" and pre: "take_pre slab1 c h1 L"
    and s1: "minFreeChunks slab1 = chunksPerBlock slab" "chunksPerBlock slab1 = chunksPerBlock slab"
      "fullChunkSize slab1 = fullChunkSize slab" "chunkSize slab1 = chunkSize slab"
      "freelist slab1 ! nat (chunksPerBlock slab) = [a]"
    by (auto simp: h1_def)
  from pre have ctx1: "contexts h1 c = Some slab1"
    by (simp add: take_pre_def slab_wf_def)
  have blk1: "blocks h1 a = Some (new_block slab c a)"
    by (simp add: h1_def new_block_heap_def)
  from SlabAlloc_take_inv [OF pre] obtain b rest blk j m' where
    t: "freelist slab1 ! nat (minFreeChunks slab1) = b # rest" "blocks h1 b = Some blk"
      "minFreeChunks slab1 \<noteq> 1 \<longrightarrow> m' = minFreeChunks slab1 - 1"
      "chunk_link blk (payload_offs (fullChunkSize slab1) (firstFreeChunk blk)) = Some j"
      "SlabAlloc_take h1 c =
        Inr (Some (Ptr b (payload_offs (fullChunkSize slab1) (firstFreeChunk blk))),
             take_heap h1 c slab1 b blk j m')"
      "Ptr b (payload_offs (fullChunkSize slab1) (firstFreeChunk blk)) \<notin> L"
      "slab_inv c (take_heap h1 c slab1 b blk j m')
        (insert (Ptr b (payload_offs (fullChunkSize slab1) (firstFreeChunk blk))) L)"
    by blast
  from t(1) s1 have b: "b = a" by simp
  with t(2) blk1 have blk: "blk = new_block slab c a" by simp
  have "SlabAlloc h c (chunkSize slab) (Some a) = SlabAlloc_take h1 c"
    using ctx m nb by (simp add: SlabAlloc_def)
  with t pre ctx1 s1 show ?thesis
    unfolding b blk h1_def [symmetric]
    by (intro exI [of _ slab1] exI [of _ j] exI [of _ m']) (simp add: new_block_fields)
qed

lemma SlabAlloc_inv:
  assumes inv: "slab_inv c h L" and ctx: "contexts h c = Some slab"
    and fresh: "sys \<notin> Some ` dom (blocks h)"
    and ok: "minFreeChunks slab \<noteq> 0 \<or> sys \<noteq> None"
  shows "\<exists>p h'. SlabAlloc h c (chunkSize slab) sys = Inr (Some p, h') \<and> p \<notin> L \<and>
           slab_inv c h' (insert p L)"
proof (cases "minFreeChunks slab = 0")
  case True
  with ok obtain a where a: "sys = Some a" by auto
  with fresh have "a \<notin> dom (blocks h)" by auto
  from SlabAlloc_fresh_block [OF inv ctx True this] a show ?thesis by blast
next
  case False
  from SlabAlloc_old_block [OF inv ctx False, of sys] show ?thesis by blast
qed

lemma SlabReset_blocks_inv:
  assumes "reset_inv slab0 c h" "distinct nodes" "set nodes \<subseteq> dom (blocks h)"
  shows "\<exists>h'. SlabReset_blocks h c nodes = Inr h' \<and> reset_inv slab0 c h' \<and>
           blocks h' = blocks h |` (- set nodes)"
  using assms
proof (induction nodes arbitrary: h)
  case Nil
  then show ?case by simp
next
  case (Cons b rest)
  from Cons.prems(1) obtain slab where ctx: "contexts h c = Some slab"
    and par: "chunkSize slab = chunkSize slab0" "fullChunkSize slab = fullChunkSize slab0"
      "blockSize slab = blockSize slab0" "chunksPerBlock slab = chunksPerBlock slab0"
      "length (freelist slab) = length (freelist slab0)"
    and bk: "buckets_ok (freelist slab) (nfree_of h)"
    and nb: "nblocks slab = int (card (dom (blocks h)))"
    and mem: "mem_allocated slab = word_of_int (nblocks slab) * blockSize slab"
    by (auto simp: reset_inv_def)
  from Cons.prems(3) have bd: "b \<in> dom (blocks h)" by simp
  define slab1 where "slab1 = slab\<lparr>freelist := dlist_delete b (freelist slab),
      nblocks := nblocks slab - 1, mem_allocated := mem_allocated slab - blockSize slab\<rparr>"
  define h1 where "h1 = h\<lparr>blocks := (blocks h)(b := None),
      contexts := (contexts h)(c \<mapsto> slab1)\<rparr>"
  have step: "SlabReset_blocks h c (b # rest) = SlabReset_blocks h1 c rest"
    using ctx bd by (simp add: sys_free_def h1_def slab1_def)
  have hb: "blocks h1 = (blocks h)(b := None)" by (simp add: h1_def)
  have fin: "finite (dom (blocks h))"
    using buckets_ok_finite [OF bk] by simp
  have card1: "nblocks slab - 1 = int (card (dom (blocks h1)))"
  proof -
    from fin bd have "0 < card (dom (blocks h))"
      by (auto simp: card_gt_0_iff)
    moreover have "card (dom (blocks h1)) = card (dom (blocks h)) - 1"
      using bd by (simp add: hb)
    ultimately show ?thesis using nb by simp
  qed
  have mem1: "mem_allocated slab - blockSize slab = word_of_int (nblocks slab - 1) * blockSize slab"
    using mem by (simp add: algebra_simps)
  have bk1: "buckets_ok (dlist_delete b (freelist slab)) (nfree_of h1)"
    using buckets_ok_delete [OF bk, of b] nfree_of_del [OF hb] by simp
  have inv1: "reset_inv slab0 c h1"
    unfolding reset_inv_def
  proof (intro exI [of _ slab1] conjI)
    show "contexts h1 c = Some slab1" by (simp add: h1_def)
    show "chunkSize slab1 = chunkSize slab0" by (simp add: slab1_def par)
    show "fullChunkSize slab1 = fullChunkSize slab0" by (simp add: slab1_def par)
    show "blockSize slab1 = blockSize slab0" by (simp add: slab1_def par)
    show "chunksPerBlock slab1 = chunksPerBlock slab0" by (simp add: slab1_def par)
    show "length (freelist slab1) = length (freelist slab0)" by (simp add: slab1_def par)
    show "buckets_ok (freelist slab1) (nfree_of h1)" using bk1 by (simp add: slab1_def)
    show "nblocks slab1 = int (card (dom (blocks h1)))" using card1 by (simp add: slab1_def)
    show "mem_allocated slab1 = word_of_int (nblocks slab1) * blockSize slab1"
      using mem1 by (simp add: slab1_def)
  qed
  have sub1: "set rest \<subseteq> dom (blocks h1)"
    using Cons.prems(2,3) by (auto simp: hb)
  from Cons.IH [OF inv1 _ sub1] Cons.prems(2) obtain h' where
    r: "SlabReset_blocks h1 c rest = Inr h'" "reset_inv slab0 c h'"
      "blocks h' = blocks h1 |` (- set rest)"
    by auto
  have "blocks h1 |` (- set rest) = blocks h |` (- set (b # rest))"
    by (auto simp: hb restrict_map_def fun_eq_iff)
  with r step show ?case by simp
qed

lemma SlabReset_loop_inv:
  assumes "reset_inv slab0 c h" "0 \<le> i"
    and "\<forall>b blk. blocks h b = Some blk \<longrightarrow> i \<le> nfree blk"
    and "length (freelist slab0) = nat (chunksPerBlock slab0) + 1"
    and "0 \<le> chunksPerBlock slab0"
  shows "\<exists>h'. SlabReset_loop h c i = Inr h' \<and> reset_inv slab0 c h' \<and> blocks h' = Map.empty"
  using assms(1,2,3)
proof (induction "nat (chunksPerBlock slab0 + 1 - i)" arbitrary: h i)
  case 0
  from "0.prems"(1) obtain slab where ctx: "contexts h c = Some slab"
    and n: "chunksPerBlock slab = chunksPerBlock slab0"
    and len: "length (freelist slab) = length (freelist slab0)"
    and bk: "buckets_ok (freelist slab) (nfree_of h)"
    by (auto simp: reset_inv_def)
  from "0.hyps" have big: "chunksPerBlock slab0 < i" by simp
  have "blocks h b = None" for b
  proof (cases "blocks h b")
    case (Some blk)
    with "0.prems"(3) have "i \<le> nfree blk" by simp
    moreover from buckets_okD2 [OF bk, of b "nfree blk"] Some
    have "nat (nfree blk) < length (freelist slab)" by simp
    then have "nat (nfree blk) < nat (chunksPerBlock slab0) + 1"
      using len assms(4) by simp
    then have "nfree blk \<le> chunksPerBlock slab0"
      using assms(5) by linarith
    ultimately show ?thesis using big by linarith
  qed simp
  then have "blocks h = Map.empty" by (simp add: fun_eq_iff)
  moreover have "SlabReset_loop h c i = Inr h"
    using ctx n big by (subst SlabReset_loop.simps) simp
  ultimately show ?case using "0.prems"(1) by simp
next
  case (Suc k)
  from Suc.prems(1) obtain slab where ctx: "contexts h c = Some slab"
    and n: "chunksPerBlock slab = chunksPerBlock slab0"
    and len: "length (freelist slab) = length (freelist slab0)"
    and bk: "buckets_ok (freelist slab) (nfree_of h)"
    by (auto simp: reset_inv_def)
  from Suc.hyps(2) have le: "i \<le> chunksPerBlock slab0" by simp
  have ilen: "nat i < length (freelist slab)"
    using le Suc.prems(2) len assms(4) by simp
  define nodes where "nodes = freelist slab ! nat i"
  have at: "freelist_at (freelist slab) i = Some nodes"
    using ilen Suc.prems(2) by (simp add: nodes_def)
  have d: "distinct nodes"
    using buckets_ok_distinct [OF bk ilen] by (simp add: nodes_def)
  have sub: "set nodes \<subseteq> dom (blocks h)"
  proof
    fix b assume "b \<in> set nodes"
    from buckets_okD1 [OF bk ilen this [unfolded nodes_def]] show "b \<in> dom (blocks h)"
      by (auto simp: nfree_of_eq_Some)
  qed
  from SlabReset_blocks_inv [OF Suc.prems(1) d sub] obtain h1 where
    r: "SlabReset_blocks h c nodes = Inr h1" "reset_inv slab0 c h1"
      "blocks h1 = blocks h |` (- set nodes)"
    by auto
  have up: "\<forall>b blk. blocks h1 b = Some blk \<longrightarrow> i + 1 \<le> nfree blk"
  proof (intro allI impI)
    fix b blk assume b1: "blocks h1 b = Some blk"
    then have b0: "blocks h b = Some blk" and notin: "b \<notin> set nodes"
      by (auto simp: r(3) restrict_map_def split: if_splits)
    from Suc.prems(3) b0 have "i \<le> nfree blk" by simp
    moreover have "nfree blk \<noteq> i"
    proof
      assume "nfree blk = i"
      with buckets_okD2 [OF bk, of b i] b0 have "b \<in> set (freelist slab ! nat i)" by simp
      with notin show False by (simp add: nodes_def)
    qed
    ultimately show "i + 1 \<le> nfree blk" by simp
  qed
  have "k = nat (chunksPerBlock slab0 + 1 - (i + 1))"
    using Suc.hyps(2) by simp
  from Suc.hyps(1) [OF this r(2) _ up] Suc.prems(2) obtain h' where
    l: "SlabReset_loop h1 c (i + 1) = Inr h'" "reset_inv slab0 c h'" "blocks h' = Map.empty"
    by auto
  have "SlabReset_loop h c i = SlabReset_loop h1 c (i + 1)"
    using ctx n le at r(1) by (subst SlabReset_loop.simps) simp
  with l show ?case by simp
qed

lemma SlabReset_inv:
  assumes inv: "slab_inv c h L" and ctx: "contexts h c = Some slab"
  shows "\<exists>h' slab'. SlabReset h c = Inr h' \<and> blocks h' = Map.empty \<and>
      contexts h' c = Some slab' \<and>
      minFreeChunks slab' = 0 \<and> nblocks slab' = 0 \<and> mem_allocated slab' = 0 \<and>
      freelist slab' = replicate (nat (chunksPerBlock slab) + 1) [] \<and>
      chunkSize slab' = chunkSize slab \<and> fullChunkSize slab' = fullChunkSize slab \<and>
      blockSize slab' = blockSize slab \<and> chunksPerBlock slab' = chunksPerBlock slab \<and>
      slab_inv c h' {}"
proof -
  from inv ctx have wf: "slab_wf slab c h L"
    by (auto simp: slab_inv_def slab_wf_def)
  then have g: "geom (chunksPerBlock slab) (fullChunkSize slab)"
    and len: "length (freelist slab) = nat (chunksPerBlock slab) + 1"
    and fc: "fullChunkSize slab = Slab_CHUNKHDRSZ + MAXALIGN (chunkSize slab)"
    and bk: "buckets_ok (freelist slab) (nfree_of h)"
    and nb: "nblocks slab = int (card (dom (blocks h)))"
    and mem: "mem_allocated slab = word_of_int (nblocks slab) * blockSize slab"
    by (auto simp: slab_wf_def)
  have ri: "reset_inv slab c h"
    unfolding reset_inv_def using ctx bk nb mem by simp
  have lo: "\<forall>b blk. blocks h b = Some blk \<longrightarrow> 0 \<le> nfree blk"
  proof (intro allI impI)
    fix b blk assume "blocks h b = Some blk"
    with buckets_okD2 [OF bk, of b "nfree blk"] show "0 \<le> nfree blk" by simp
  qed
  have n0: "0 \<le> chunksPerBlock slab" using g by (simp add: geom_def)
  from SlabReset_loop_inv [OF ri _ lo len n0] obtain h1 where
    l: "SlabReset_loop h c 0 = Inr h1" "reset_inv slab c h1" "blocks h1 = Map.empty"
    by auto
  from l(2) obtain slab1 where ctx1: "contexts h1 c = Some slab1"
    and par: "chunkSize slab1 = chunkSize slab" "fullChunkSize slab1 = fullChunkSize slab"
      "blockSize slab1 = blockSize slab" "chunksPerBlock slab1 = chunksPerBlock slab"
      "length (freelist slab1) = length (freelist slab)"
    and bk1: "buckets_ok (freelist slab1) (nfree_of h1)"
    and nb1: "nblocks slab1 = int (card (dom (blocks h1)))"
    and mem1: "mem_allocated slab1 = word_of_int (nblocks slab1) * blockSize slab1"
    by (auto simp: reset_inv_def)
  have nf1: "nfree_of h1 = Map.empty" by (simp add: nfree_of_def l(3))
  have empty: "freelist slab1 ! k = []" if "k < length (freelist slab1)" for k
  proof (rule ccontr)
    assume "freelist slab1 ! k \<noteq> []"
    then obtain b where "b \<in> set (freelist slab1 ! k)"
      by (cases "freelist slab1 ! k") auto
    from buckets_okD1 [OF bk1 that this] show False by (simp add: nf1)
  qed
  have "freelist slab1 = replicate (length (freelist slab1)) []"
    by (intro nth_equalityI) (simp_all add: empty)
  then have fl1: "freelist slab1 = replicate (nat (chunksPerBlock slab) + 1) []"
    using par(5) len by simp
  have z: "nblocks slab1 = 0" "mem_allocated slab1 = 0"
    using nb1 mem1 by (simp_all add: l(3))
  define slab' where "slab' = slab1\<lparr>minFreeChunks := 0\<rparr>"
  define h' where "h' = h1\<lparr>contexts := (contexts h1)(c \<mapsto> slab')\<rparr>"
  have res: "SlabReset h c = Inr h'"
    using l(1) ctx1 by (simp add: SlabReset_def h'_def slab'_def)
  have hb: "blocks h' = Map.empty" by (simp add: h'_def l(3))
  have hc: "contexts h' c = Some slab'" by (simp add: h'_def)
  have nf': "nfree_of h' = Map.empty" by (simp add: nfree_of_def hb)
  have wf': "slab_wf slab' c h' {}"
    unfolding slab_wf_def
    using hc g len fc par z buckets_ok_empty [of "nat (chunksPerBlock slab) + 1"]
    by (simp add: slab'_def hb nf' fl1)
  have inv': "slab_inv c h' {}"
    unfolding slab_inv_def using wf' by (intro exI [of _ slab']) (simp add: hb min_ok_def slab'_def)
  show ?thesis
  proof (intro exI [of _ h'] exI [of _ slab'] conjI)
    show "SlabReset h c = Inr h'" by (fact res)
    show "blocks h' = Map.empty" by (fact hb)
    show "contexts h' c = Some slab'" by (fact hc)
    show "minFreeChunks slab' = 0" by (simp add: slab'_def)
    show "nblocks slab' = 0" by (simp add: slab'_def z)
    show "mem_allocated slab' = 0" by (simp add: slab'_def z)
    show "freelist slab' = replicate (nat (chunksPerBlock slab) + 1) []"
      using fl1 by (simp add: slab'_def)
    show "chunkSize slab' = chunkSize slab" by (simp add: slab'_def par)
    show "fullChunkSize slab' = fullChunkSize slab" by (simp add: slab'_def par)
    show "blockSize slab' = blockSize slab" by (simp add: slab'_def par)
    show "chunksPerBlock slab' = chunksPerBlock slab" by (simp add: slab'_def par)
    show "slab_inv c h' {}" by (fact inv')
  qed
qed

lemma SlabAlloc_take_not_null: "SlabAlloc_take h c \<noteq> Inr (None, h')"
  by (auto simp: SlabAlloc_take_def req_def Let_def split: option.splits)

lemma SlabAlloc_null_only:
  assumes "SlabAlloc h c sz sys = Inr (None, h')"
  shows "sys = None \<and> h' = h \<and>
         (\<exists>slab. contexts h c = Some slab \<and> minFreeChunks slab = 0 \<and> sz = chunkSize slab)"
proof -
  from assms obtain slab where ctx: "contexts h c = Some slab"
    by (cases "contexts h c") (simp_all add: SlabAlloc_def)
  from assms ctx have sz: "sz = chunkSize slab"
    by (simp add: SlabAlloc_def split: if_splits)
  from assms ctx sz have m: "minFreeChunks slab = 0"
    using SlabAlloc_take_not_null [of h c h'] by (simp add: SlabAlloc_def split: if_splits)
  from assms ctx sz m have "sys = None \<and> h' = h"
    using SlabAlloc_take_not_null [of _ c h']
    by (cases sys) (auto simp: SlabAlloc_def split: sum.splits)
  with ctx sz m show ?thesis by simp
qed

lemma SlabAlloc_cases:
  assumes inv: "slab_inv c h L" and ctx: "contexts h c = Some slab"
    and fresh: "sys \<notin> Some ` dom (blocks h)"
  shows "(sz \<noteq> chunkSize slab \<and> SlabAlloc h c sz sys = Inl (Raised UnexpectedAllocChunkSize h)) \<or>
         (sz = chunkSize slab \<and> minFreeChunks slab = 0 \<and> sys = None \<and>
            SlabAlloc h c sz sys = Inr (None, h)) \<or>
         (sz = chunkSize slab \<and> (minFreeChunks slab \<noteq> 0 \<or> sys \<noteq> None) \<and>
            (\<exists>p h'. SlabAlloc h c sz sys = Inr (Some p, h') \<and> p \<notin> L \<and> slab_inv c h' (insert p L)))"
proof (cases "sz = chunkSize slab")
  case False
  with SlabAlloc_wrong_size [OF ctx] show ?thesis by simp
next
  case True
  show ?thesis
  proof (cases "minFreeChunks slab = 0 \<and> sys = None")
    case T: True
    with SlabAlloc_null [OF ctx] True show ?thesis by simp
  next
    case False
    then have "minFreeChunks slab \<noteq> 0 \<or> sys \<noteq> None" by simp
    from SlabAlloc_inv [OF inv ctx fresh this] True this show ?thesis by simp
  qed
qed

lemma slab_inv_ctx: "slab_inv c h L \<Longrightarrow> \<exists>slab. contexts h c = Some slab"
  by (auto simp: slab_inv_def slab_wf_def)

lemma reach_inv: "reach c h L \<Longrightarrow> slab_inv c h L"
proof (induction rule: reach.induct)
  case (reach_create bs cs0 h)
  from SlabContextCreate_inv [OF reach_create(1,3)] show ?case by simp
next
  case (reach_alloc h L sys sz p h')
  from slab_inv_ctx [OF reach_alloc.IH] obtain slab where ctx: "contexts h c = Some slab" ..
  from SlabAlloc_cases [OF reach_alloc.IH ctx reach_alloc.hyps(2), of sz] reach_alloc.hyps(3)
  show ?case by auto
next
  case (reach_alloc_null h L sys sz h')
  from SlabAlloc_null_only [OF reach_alloc_null.hyps(3)] reach_alloc_null.IH
  show ?case by simp
next
  case (reach_alloc_raise h L sys sz e h')
  from slab_inv_ctx [OF reach_alloc_raise.IH] obtain slab where ctx: "contexts h c = Some slab" ..
  from SlabAlloc_cases [OF reach_alloc_raise.IH ctx reach_alloc_raise.hyps(2), of sz]
    reach_alloc_raise.hyps(3) reach_alloc_raise.IH
  show ?case by auto
next
  case (reach_free h L p h')
  from SlabFree_inv [OF reach_free.IH reach_free.hyps(2)] reach_free.hyps(3)
  show ?case by auto
next
  case (reach_reset h L h')
  from slab_inv_ctx [OF reach_reset.IH] obtain slab where ctx: "contexts h c = Some slab" ..
  from SlabReset_inv [OF reach_reset.IH ctx] reach_reset.hyps(2)
  show ?case by auto
qed

lemma slab_invD:
  assumes "slab_inv c h L" "contexts h c = Some slab"
  shows "slab_wf slab c h L"
    and "\<And>b blk. blocks h b = Some blk \<Longrightarrow> nfree blk < chunksPerBlock slab"
    and "min_ok slab"
  using assms by (auto simp: slab_inv_def slab_wf_def)



lemma slab_wf_block_inv:
  "slab_wf slab c h L \<Longrightarrow> blocks h b = Some blk \<Longrightarrow>
   block_inv (chunksPerBlock slab) (fullChunkSize slab) (chunkSize slab) c L b blk"
  unfolding slab_wf_def by blast

lemma slab_wf_geom: "slab_wf slab c h L \<Longrightarrow> geom (chunksPerBlock slab) (fullChunkSize slab)"
  unfolding slab_wf_def by blast

lemma slab_wf_length:
  "slab_wf slab c h L \<Longrightarrow> length (freelist slab) = nat (chunksPerBlock slab) + 1"
  unfolding slab_wf_def by blast

lemma slab_wf_buckets: "slab_wf slab c h L \<Longrightarrow> buckets_ok (freelist slab) (nfree_of h)"
  unfolding slab_wf_def by blast


lemma take_heap_proj:
  "contexts (take_heap h c slab b blk j m') c =
     Some (slab\<lparr>freelist := (dlist_delete b (freelist slab))
                 [nat (nfree blk - 1) := b # dlist_delete b (freelist slab) ! nat (nfree blk - 1)],
               minFreeChunks := m'\<rparr>)"
  "blocks (take_heap h c slab b blk j m') =
     (blocks h)(b \<mapsto> blk\<lparr>nfree := nfree blk - 1, firstFreeChunk := j,
              chunk_hdr := (chunk_hdr blk)
                (chunk_offs (fullChunkSize slab) (firstFreeChunk blk) \<mapsto>
                   chunk_header (chunkSize slab) b)\<rparr>)"
  by (simp_all add: take_heap_def)

lemma filling_after_take:
  assumes inv': "slab_inv c (take_heap h c slab a blk (i + 1) m') L'"
    and len: "length (freelist slab) = nat (chunksPerBlock slab) + 1"
    and nf: "nfree blk = chunksPerBlock slab - i" and i: "0 \<le> i" "i + 1 < chunksPerBlock slab"
    and m': "m' = chunksPerBlock slab - i - 1"
    and links: "\<forall>k. 0 \<le> k \<and> k < chunksPerBlock slab \<longrightarrow>
           chunk_link blk (payload_offs (fullChunkSize slab) k) = Some (k + 1)"
  shows "\<exists>slab'. filling c (take_heap h c slab a blk (i + 1) m') L' a slab' (i + 1) \<and>
           chunksPerBlock slab' = chunksPerBlock slab \<and> fullChunkSize slab' = fullChunkSize slab \<and>
           chunkSize slab' = chunkSize slab"
proof -
  define heads2 where "heads2 = (dlist_delete a (freelist slab))
      [nat (nfree blk - 1) := a # dlist_delete a (freelist slab) ! nat (nfree blk - 1)]"
  define slab' where "slab' = slab\<lparr>freelist := heads2, minFreeChunks := m'\<rparr>"
  have ctx': "contexts (take_heap h c slab a blk (i + 1) m') c = Some slab'"
    by (simp add: take_heap_proj slab'_def heads2_def)
  have idx: "nat (nfree blk - 1) < length (dlist_delete a (freelist slab))"
    using len nf i by simp
  have e: "nat (chunksPerBlock slab - (i + 1)) = nat (nfree blk - 1)"
    using nf by simp
  have hd: "heads2 ! nat (chunksPerBlock slab - (i + 1)) =
      a # dlist_delete a (freelist slab) ! nat (nfree blk - 1)"
    unfolding heads2_def e using idx by (rule nth_list_update_eq)
  have par: "chunksPerBlock slab' = chunksPerBlock slab" "fullChunkSize slab' = fullChunkSize slab"
    "chunkSize slab' = chunkSize slab" "freelist slab' = heads2" "minFreeChunks slab' = m'"
    by (simp_all add: slab'_def)
  define blk' where "blk' = blk\<lparr>nfree := nfree blk - 1, firstFreeChunk := i + 1,
      chunk_hdr := (chunk_hdr blk)(chunk_offs (fullChunkSize slab) (firstFreeChunk blk) \<mapsto>
        chunk_header (chunkSize slab) a)\<rparr>"
  have blk': "blocks (take_heap h c slab a blk (i + 1) m') a = Some blk'"
    by (simp add: take_heap_proj blk'_def)
  have bf: "firstFreeChunk blk' = i + 1" "nfree blk' = chunksPerBlock slab - (i + 1)"
    "chunk_link blk' = chunk_link blk"
    using nf by (simp_all add: blk'_def)
  have "filling c (take_heap h c slab a blk (i + 1) m') L' a slab' (i + 1)"
    unfolding filling_def par
  proof (intro conjI)
    show "slab_inv c (take_heap h c slab a blk (i + 1) m') L'" by (fact inv')
    show "contexts (take_heap h c slab a blk (i + 1) m') c = Some slab'" by (fact ctx')
    show "0 < i + 1" using i by simp
    show "i + 1 < chunksPerBlock slab" by (fact i(2))
    show "m' = chunksPerBlock slab - (i + 1)" using m' by simp
    show "\<exists>rest. heads2 ! nat (chunksPerBlock slab - (i + 1)) = a # rest"
      using hd by blast
    show "\<exists>blk0. blocks (take_heap h c slab a blk (i + 1) m') a = Some blk0 \<and>
        firstFreeChunk blk0 = i + 1 \<and> nfree blk0 = chunksPerBlock slab - (i + 1) \<and>
        (\<forall>k. 0 \<le> k \<and> k < chunksPerBlock slab \<longrightarrow>
           chunk_link blk0 (payload_offs (fullChunkSize slab) k) = Some (k + 1))"
      using blk' bf links by (intro exI [of _ blk']) simp
  qed
  with par show ?thesis by blast
qed

lemma filling_step:
  assumes f: "filling c h L a slab i"
  shows "\<exists>h'. SlabAlloc h c (chunkSize slab) sys =
             Inr (Some (Ptr a (payload_offs (fullChunkSize slab) i)), h') \<and>
           (i + 1 < chunksPerBlock slab \<longrightarrow>
              (\<exists>slab'. filling c h' (insert (Ptr a (payload_offs (fullChunkSize slab) i)) L) a slab' (i + 1) \<and>
                 chunksPerBlock slab' = chunksPerBlock slab \<and>
                 fullChunkSize slab' = fullChunkSize slab \<and> chunkSize slab' = chunkSize slab))"
proof -
  from f obtain rest0 blk0 where inv: "slab_inv c h L" and ctx: "contexts h c = Some slab"
    and i: "0 < i" "i < chunksPerBlock slab"
    and m: "minFreeChunks slab = chunksPerBlock slab - i"
    and hd0: "freelist slab ! nat (chunksPerBlock slab - i) = a # rest0"
    and blk0: "blocks h a = Some blk0" "firstFreeChunk blk0 = i" "nfree blk0 = chunksPerBlock slab - i"
    and links: "\<forall>k. 0 \<le> k \<and> k < chunksPerBlock slab \<longrightarrow>
           chunk_link blk0 (payload_offs (fullChunkSize slab) k) = Some (k + 1)"
    by (auto simp: filling_def)
  from m i have m0: "minFreeChunks slab \<noteq> 0" by simp
  from slab_wf_length [OF slab_invD(1) [OF inv ctx]]
  have len: "length (freelist slab) = nat (chunksPerBlock slab) + 1" .
  from SlabAlloc_old_block [OF inv ctx m0, of sys] obtain b rest blk j m' where
    t: "freelist slab ! nat (minFreeChunks slab) = b # rest" "blocks h b = Some blk"
      "chunk_link blk (payload_offs (fullChunkSize slab) (firstFreeChunk blk)) = Some j"
      "minFreeChunks slab \<noteq> 1 \<longrightarrow> m' = minFreeChunks slab - 1"
      "SlabAlloc h c (chunkSize slab) sys =
        Inr (Some (Ptr b (payload_offs (fullChunkSize slab) (firstFreeChunk blk))),
             take_heap h c slab b blk j m')"
      "slab_inv c (take_heap h c slab b blk j m')
        (insert (Ptr b (payload_offs (fullChunkSize slab) (firstFreeChunk blk))) L)"
    by blast
  from t(1) hd0 m have b: "b = a" by simp
  with t(2) blk0 have blk: "blk = blk0" by simp
  from t(3) links i blk blk0 have j: "j = i + 1" by simp
  have next_ok: "\<exists>slab'. filling c (take_heap h c slab a blk0 (i + 1) m')
        (insert (Ptr a (payload_offs (fullChunkSize slab) i)) L) a slab' (i + 1) \<and>
      chunksPerBlock slab' = chunksPerBlock slab \<and>
      fullChunkSize slab' = fullChunkSize slab \<and> chunkSize slab' = chunkSize slab"
    if lt: "i + 1 < chunksPerBlock slab"
  proof -
    from lt m t(4) have "m' = chunksPerBlock slab - i - 1" by simp
    with t(6) [unfolded b blk j blk0(2)] len blk0(3) i lt links show ?thesis
      by (intro filling_after_take) simp_all
  qed
  from t(5) next_ok show ?thesis
    unfolding b blk j blk0(2) by blast
qed

lemma filling_seq:
  assumes "filling c h L a slab i" and "length syss = nat (chunksPerBlock slab - i)"
  shows "\<exists>h'. SlabAlloc_seq h c (chunkSize slab) syss =
           Inr (map (\<lambda>k. Some (Ptr a (payload_offs (fullChunkSize slab) k)))
                  [i..chunksPerBlock slab - 1], h')"
  using assms
proof (induction syss arbitrary: h L slab i)
  case Nil
  then show ?case by (simp add: filling_def)
next
  case (Cons sys rest)
  from Cons.prems(1) have i: "0 < i" "i < chunksPerBlock slab"
    by (simp_all add: filling_def)
  define p where "p = Ptr a (payload_offs (fullChunkSize slab) i)"
  from filling_step [OF Cons.prems(1), of sys] obtain h1 where
    st: "SlabAlloc h c (chunkSize slab) sys = Inr (Some p, h1)"
    and nx: "i + 1 < chunksPerBlock slab \<longrightarrow>
      (\<exists>slab'. filling c h1 (insert p L) a slab' (i + 1) \<and>
         chunksPerBlock slab' = chunksPerBlock slab \<and>
         fullChunkSize slab' = fullChunkSize slab \<and> chunkSize slab' = chunkSize slab)"
    by (auto simp: p_def)
  have up: "[i..chunksPerBlock slab - 1] = i # [i + 1..chunksPerBlock slab - 1]"
    using i by (simp add: upto_rec1)
  show ?case
  proof (cases "i + 1 < chunksPerBlock slab")
    case True
    with nx obtain slab' where f': "filling c h1 (insert p L) a slab' (i + 1)"
      and par: "chunksPerBlock slab' = chunksPerBlock slab"
        "fullChunkSize slab' = fullChunkSize slab" "chunkSize slab' = chunkSize slab"
      by blast
    have "length rest = nat (chunksPerBlock slab' - (i + 1))"
      using Cons.prems(2) par by simp
    from Cons.IH [OF f' this] obtain h' where
      "SlabAlloc_seq h1 c (chunkSize slab) rest =
         Inr (map (\<lambda>k. Some (Ptr a (payload_offs (fullChunkSize slab) k)))
                [i + 1..chunksPerBlock slab - 1], h')"
      by (auto simp: par)
    with st up show ?thesis by (simp add: p_def)
  next
    case False
    with i have e: "i + 1 = chunksPerBlock slab" by simp
    then have "chunksPerBlock slab - i = 1" by simp
    with Cons.prems(2) have "rest = []" by simp
    moreover from e have "[i + 1..chunksPerBlock slab - 1] = []" by simp
    ultimately show ?thesis using st up by (simp add: p_def)
  qed
qed

lemma fresh_block_seq:
  assumes inv: "slab_inv c h L" and ctx: "contexts h c = Some slab"
    and m: "minFreeChunks slab = 0" and fresh: "a \<notin> dom (blocks h)"
    and len: "length syss + 1 = nat (chunksPerBlock slab)"
  shows "\<exists>h'. SlabAlloc_seq h c (chunkSize slab) (Some a # syss) =
           Inr (map (\<lambda>k. Some (Ptr a (payload_offs (fullChunkSize slab) k)))
                  [0..chunksPerBlock slab - 1], h')"
proof -
  define n where "n = chunksPerBlock slab"
  define fcs where "fcs = fullChunkSize slab"
  from slab_wf_geom [OF slab_invD(1) [OF inv ctx]] have g: "geom n fcs"
    by (simp add: n_def fcs_def)
  then have n0: "0 < n" by (simp add: geom_def)
  from SlabAlloc_fresh_block [OF inv ctx m fresh] obtain slab1 j m' where
    t: "take_pre slab1 c (new_block_heap h c slab a) L"
      "chunksPerBlock slab1 = n" "fullChunkSize slab1 = fcs" "chunkSize slab1 = chunkSize slab"
      "n \<noteq> 1 \<longrightarrow> m' = n - 1"
      "chunk_link (new_block slab c a) (payload_offs fcs 0) = Some j"
      "SlabAlloc h c (chunkSize slab) (Some a) =
        Inr (Some (Ptr a (payload_offs fcs 0)),
             take_heap (new_block_heap h c slab a) c slab1 a (new_block slab c a) j m')"
      "slab_inv c (take_heap (new_block_heap h c slab a) c slab1 a (new_block slab c a) j m')
        (insert (Ptr a (payload_offs fcs 0)) L)"
    unfolding n_def fcs_def by blast
  from t(6) new_block_links [OF g [unfolded n_def fcs_def], of 0 c a] n0
  have j: "j = 1" by (simp add: n_def fcs_def)
  define h1 where "h1 = take_heap (new_block_heap h c slab a) c slab1 a (new_block slab c a) 1 m'"
  define p0 where "p0 = Ptr a (payload_offs fcs 0)"
  have st: "SlabAlloc h c (chunkSize slab) (Some a) = Inr (Some p0, h1)"
    using t(7) by (simp add: j h1_def p0_def)
  have up: "[0..n - 1] = 0 # [1..n - 1]"
    using n0 by (simp add: upto_rec1)
  show ?thesis
  proof (cases "n = 1")
    case True
    with len have "syss = []" by (simp add: n_def)
    with st up True show ?thesis
      by (simp add: p0_def n_def fcs_def)
  next
    case False
    with n0 have n1: "0 + 1 < chunksPerBlock slab1" by (simp add: t(2))
    from t(1) have len1: "length (freelist slab1) = nat (chunksPerBlock slab1) + 1"
      by (simp add: take_pre_def slab_wf_def)
    have links: "\<forall>k. 0 \<le> k \<and> k < chunksPerBlock slab1 \<longrightarrow>
        chunk_link (new_block slab c a) (payload_offs (fullChunkSize slab1) k) = Some (k + 1)"
      using new_block_links [OF g [unfolded n_def fcs_def], of _ c a]
      by (simp add: t(2,3) n_def fcs_def)
    from False t(5) have m'1: "m' = chunksPerBlock slab1 - 0 - 1" by (simp add: t(2))
    have "\<exists>slab'. filling c (take_heap (new_block_heap h c slab a) c slab1 a (new_block slab c a) (0 + 1) m')
        (insert p0 L) a slab' (0 + 1) \<and>
      chunksPerBlock slab' = chunksPerBlock slab1 \<and> fullChunkSize slab' = fullChunkSize slab1 \<and>
      chunkSize slab' = chunkSize slab1"
      using t(8) [unfolded j] len1 n1 m'1 links
      by (intro filling_after_take) (simp_all add: new_block_fields t(2) n_def p0_def)
    then obtain slab' where f': "filling c h1 (insert p0 L) a slab' 1"
      and par: "chunksPerBlock slab' = n" "fullChunkSize slab' = fcs" "chunkSize slab' = chunkSize slab"
      by (auto simp: h1_def t(2,3,4))
    have "length syss = nat (chunksPerBlock slab' - 1)"
      using len par by (simp add: n_def)
    from filling_seq [OF f' this] obtain h' where
      "SlabAlloc_seq h1 c (chunkSize slab) syss =
         Inr (map (\<lambda>k. Some (Ptr a (payload_offs fcs k))) [1..n - 1], h')"
      by (auto simp: par)
    with st up show ?thesis
      by (simp add: p0_def n_def fcs_def)
  qed
qed

lemma SlabAlloc_pointer:
  assumes inv: "slab_inv c h L" and ctx: "contexts h c = Some slab"
    and fresh: "sys \<notin> Some ` dom (blocks h)"
    and res: "SlabAlloc h c sz sys = Inr (Some q, h'')"
  shows "ptr_base q \<notin> dom (blocks h) \<or>
         (\<exists>blk. blocks h (ptr_base q) = Some blk \<and>
            q = Ptr (ptr_base q) (payload_offs (fullChunkSize slab) (firstFreeChunk blk)))"
proof -
  from res ctx have sz: "sz = chunkSize slab"
    by (simp add: SlabAlloc_def split: if_splits)
  show ?thesis
  proof (cases "minFreeChunks slab = 0")
    case True
    with res ctx sz obtain a where a: "sys = Some a"
      by (cases sys) (simp_all add: SlabAlloc_def)
    with fresh have fr: "a \<notin> dom (blocks h)" by auto
    from SlabAlloc_fresh_block [OF inv ctx True fr] res a sz
    have "q = Ptr a (payload_offs (fullChunkSize slab) 0)" by auto
    with fr show ?thesis by simp
  next
    case False
    from SlabAlloc_old_block [OF inv ctx False, of sys] res sz show ?thesis by auto
  qed
qed

lemma free_slab_params [simp]:
  "fullChunkSize (free_slab slab b blk) = fullChunkSize slab"
  "chunksPerBlock (free_slab slab b blk) = chunksPerBlock slab"
  "chunkSize (free_slab slab b blk) = chunkSize slab"
  by (simp_all add: free_slab_def Let_def)

lemma lifo_after_free:
  assumes inv: "slab_inv c h L" and ctx: "contexts h c = Some slab" and pL: "p \<in> L"
  shows "\<exists>h' i blk. SlabFree h p = Inr h' \<and> blocks h (ptr_base p) = Some blk \<and>
      p = Ptr (ptr_base p) (payload_offs (fullChunkSize slab) i) \<and> 0 \<le> i \<and> i < chunksPerBlock slab \<and>
      (if nfree blk + 1 = chunksPerBlock slab then blocks h' (ptr_base p) = None
       else (\<exists>blk'. blocks h' (ptr_base p) = Some blk' \<and> firstFreeChunk blk' = i) \<and>
            (\<forall>sz sys q h''. sys \<notin> Some ` dom (blocks h') \<and>
                 SlabAlloc h' c sz sys = Inr (Some q, h'') \<and> ptr_base q = ptr_base p \<longrightarrow> q = p))"
proof -
  from SlabFree_inv [OF inv pL] ctx obtain b blk i h' where
    f: "blocks h b = Some blk" "0 \<le> i" "i < chunksPerBlock slab"
      "p = Ptr b (payload_offs (fullChunkSize slab) i)"
      "SlabFree h p = Inr h'" "contexts h' = (contexts h)(c \<mapsto> free_slab slab b blk)"
      "blocks h' = (if nfree blk + 1 = chunksPerBlock slab then (blocks h)(b := None)
                    else (blocks h)(b \<mapsto> free_block (fullChunkSize slab) blk i))"
      "slab_inv c h' (L - {p})"
    by auto
  from f(4) have b: "ptr_base p = b" by simp
  have ctx': "contexts h' c = Some (free_slab slab b blk)" by (simp add: f(6))
  have tail: "if nfree blk + 1 = chunksPerBlock slab then blocks h' b = None
       else (\<exists>blk'. blocks h' b = Some blk' \<and> firstFreeChunk blk' = i) \<and>
            (\<forall>sz sys q h''. sys \<notin> Some ` dom (blocks h') \<and>
                 SlabAlloc h' c sz sys = Inr (Some q, h'') \<and> ptr_base q = b \<longrightarrow> q = p)"
  proof (cases "nfree blk + 1 = chunksPerBlock slab")
    case True
    then show ?thesis by (simp add: f(7))
  next
    case False
    then have hb: "blocks h' b = Some (free_block (fullChunkSize slab) blk i)"
      by (simp add: f(7))
    have "q = p" if fr: "sys \<notin> Some ` dom (blocks h')"
      and al: "SlabAlloc h' c sz sys = Inr (Some q, h'')" and qb: "ptr_base q = b"
      for sz sys q h''
    proof -
      from SlabAlloc_pointer [OF f(8) ctx' fr al] qb hb
      have "q = Ptr b (payload_offs (fullChunkSize slab) i)" by auto
      with f(4) show ?thesis by simp
    qed
    with hb False show ?thesis by auto
  qed
  from f(1,2,3,4,5) tail show ?thesis
    unfolding b by blast
qed

lemma SlabAlloc_frame:
  assumes inv: "slab_inv c h L" and ctx: "contexts h c = Some slab"
    and fresh: "sys \<notin> Some ` dom (blocks h)"
    and res: "SlabAlloc h c sz sys = Inr (Some q, h')"
  shows "\<exists>slab'. contexts h' c = Some slab' \<and> fullChunkSize slab' = fullChunkSize slab \<and>
           (\<forall>b. b \<noteq> ptr_base q \<longrightarrow> blocks h' b = blocks h b)"
proof -
  from res ctx have sz: "sz = chunkSize slab"
    by (simp add: SlabAlloc_def split: if_splits)
  show ?thesis
  proof (cases "minFreeChunks slab = 0")
    case True
    with res ctx sz obtain a where a: "sys = Some a"
      by (cases sys) (simp_all add: SlabAlloc_def)
    with fresh have fr: "a \<notin> dom (blocks h)" by auto
    from SlabAlloc_fresh_block [OF inv ctx True fr] res a sz
    obtain slab1 j m' where
      s1: "fullChunkSize slab1 = fullChunkSize slab"
      and q: "q = Ptr a (payload_offs (fullChunkSize slab) 0)"
      and h': "h' = take_heap (new_block_heap h c slab a) c slab1 a (new_block slab c a) j m'"
      by auto
    show ?thesis
      by (simp add: h' q take_heap_proj s1 new_block_heap_def)
  next
    case False
    from SlabAlloc_old_block [OF inv ctx False, of sys] res sz
    obtain b blk j m' where
      q: "q = Ptr b (payload_offs (fullChunkSize slab) (firstFreeChunk blk))"
      and h': "h' = take_heap h c slab b blk j m'"
      by auto
    show ?thesis
      by (simp add: h' q take_heap_proj)
  qed
qed

lemma SlabFree_frame:
  assumes inv: "slab_inv c h L" and ctx: "contexts h c = Some slab" and qL: "q \<in> L"
    and res: "SlabFree h q = Inr h'"
  shows "\<exists>slab'. contexts h' c = Some slab' \<and> fullChunkSize slab' = fullChunkSize slab \<and>
           (\<forall>b. b \<noteq> ptr_base q \<longrightarrow> blocks h' b = blocks h b)"
proof -
  from SlabFree_inv [OF inv qL] ctx res obtain b blk i where
    f: "q = Ptr b (payload_offs (fullChunkSize slab) i)"
      "contexts h' = (contexts h)(c \<mapsto> free_slab slab b blk)"
      "blocks h' = (if nfree blk + 1 = chunksPerBlock slab then (blocks h)(b := None)
                    else (blocks h)(b \<mapsto> free_block (fullChunkSize slab) blk i))"
    by auto
  show ?thesis
    by (simp add: f)
qed

lemma idle_frame:
  assumes "idle c b h L h1 L1" and "slab_inv c h L" and "contexts h c = Some slab"
  shows "slab_inv c h1 L1 \<and> blocks h1 b = blocks h b \<and>
         (\<exists>slab1. contexts h1 c = Some slab1 \<and> fullChunkSize slab1 = fullChunkSize slab)"
  using assms
proof (induction rule: idle.induct)
  case idle_refl
  then show ?case by simp
next
  case (idle_alloc h1 L1 sys sz q h2)
  from idle_alloc.IH [OF idle_alloc.prems] obtain slab1 where
    i: "slab_inv c h1 L1" "blocks h1 b = blocks h b" "contexts h1 c = Some slab1"
      "fullChunkSize slab1 = fullChunkSize slab"
    by auto
  from SlabAlloc_cases [OF i(1) i(3) idle_alloc.hyps(2), of sz] idle_alloc.hyps(3)
  have inv2: "slab_inv c h2 (insert q L1)" by auto
  from SlabAlloc_frame [OF i(1) i(3) idle_alloc.hyps(2,3)] idle_alloc.hyps(4) i(2,4) inv2
  show ?case by auto
next
  case (idle_free h1 L1 q h2)
  from idle_free.IH [OF idle_free.prems] obtain slab1 where
    i: "slab_inv c h1 L1" "blocks h1 b = blocks h b" "contexts h1 c = Some slab1"
      "fullChunkSize slab1 = fullChunkSize slab"
    by auto
  from SlabFree_inv [OF i(1) idle_free.hyps(2)] idle_free.hyps(4)
  have inv2: "slab_inv c h2 (L1 - {q})" by auto
  from SlabFree_frame [OF i(1) i(3) idle_free.hyps(2,4)] idle_free.hyps(3) i(2,4) inv2
  show ?case by auto
qed

lemma lifo_reuse:
  assumes inv: "slab_inv c h L" and ctx: "contexts h c = Some slab" and pL: "p \<in> L"
  shows "\<exists>h1 i blk. SlabFree h p = Inr h1 \<and> blocks h (ptr_base p) = Some blk \<and>
      p = Ptr (ptr_base p) (payload_offs (fullChunkSize slab) i) \<and> 0 \<le> i \<and> i < chunksPerBlock slab \<and>
      (blocks h1 (ptr_base p) = None \<longleftrightarrow> nfree blk + 1 = chunksPerBlock slab) \<and>
      (\<forall>blk'. blocks h1 (ptr_base p) = Some blk' \<longrightarrow>
         firstFreeChunk blk' = i \<and>
         (\<forall>h2 L2 sz sys q h3.
            idle c (ptr_base p) h1 (L - {p}) h2 L2 \<and> sys \<notin> Some ` dom (blocks h2) \<and>
            SlabAlloc h2 c sz sys = Inr (Some q, h3) \<and> ptr_base q = ptr_base p \<longrightarrow> q = p))"
proof -
  from SlabFree_inv [OF inv pL] ctx obtain b blk i h1 where
    f: "blocks h b = Some blk" "0 \<le> i" "i < chunksPerBlock slab"
      "p = Ptr b (payload_offs (fullChunkSize slab) i)"
      "SlabFree h p = Inr h1" "contexts h1 = (contexts h)(c \<mapsto> free_slab slab b blk)"
      "blocks h1 = (if nfree blk + 1 = chunksPerBlock slab then (blocks h)(b := None)
                    else (blocks h)(b \<mapsto> free_block (fullChunkSize slab) blk i))"
      "slab_inv c h1 (L - {p})"
    by auto
  from f(4) have b: "ptr_base p = b" by simp
  have ctx1: "contexts h1 c = Some (free_slab slab b blk)" by (simp add: f(6))
  have gone: "blocks h1 b = None \<longleftrightarrow> nfree blk + 1 = chunksPerBlock slab"
    by (simp add: f(7))
  have tail: "firstFreeChunk blk' = i \<and>
         (\<forall>h2 L2 sz sys q h3.
            idle c b h1 (L - {p}) h2 L2 \<and> sys \<notin> Some ` dom (blocks h2) \<and>
            SlabAlloc h2 c sz sys = Inr (Some q, h3) \<and> ptr_base q = b \<longrightarrow> q = p)"
    if hb: "blocks h1 b = Some blk'" for blk'
  proof -
    from hb have blk': "blk' = free_block (fullChunkSize slab) blk i"
      by (simp add: f(7) split: if_splits)
    have "q = p" if id: "idle c b h1 (L - {p}) h2 L2" and fr: "sys \<notin> Some ` dom (blocks h2)"
      and al: "SlabAlloc h2 c sz sys = Inr (Some q, h3)" and qb: "ptr_base q = b"
      for h2 L2 sz sys q h3
    proof -
      from idle_frame [OF id f(8) ctx1] obtain slab2 where
        i2: "slab_inv c h2 L2" "blocks h2 b = blocks h1 b" "contexts h2 c = Some slab2"
          "fullChunkSize slab2 = fullChunkSize slab"
        by auto
      from SlabAlloc_pointer [OF i2(1) i2(3) fr al] qb hb i2(2,4) blk'
      have "q = Ptr b (payload_offs (fullChunkSize slab) i)" by auto
      with f(4) show ?thesis by simp
    qed
    with blk' show ?thesis by auto
  qed
  from tail have t: "\<forall>blk'. blocks h1 b = Some blk' \<longrightarrow>
         firstFreeChunk blk' = i \<and>
         (\<forall>h2 L2 sz sys q h3.
            idle c b h1 (L - {p}) h2 L2 \<and> sys \<notin> Some ` dom (blocks h2) \<and>
            SlabAlloc h2 c sz sys = Inr (Some q, h3) \<and> ptr_base q = b \<longrightarrow> q = p)"
    by (intro allI impI)
  from f(5) f(1) f(4) f(2) f(3) gone t show ?thesis
    unfolding b
    by (intro exI [of _ h1] exI [of _ i] exI [of _ blk] conjI) assumption+
qed

subsection \<open>The concrete run\<close>

lemma replicate3: "replicate 3 x = [x, x, x]"
  by (simp add: numeral_3_eq_3)

lemma upd3_1: "[a, b, c][Suc 0 := x] = [a, x, c]"
  by simp

lemma upd3_2: "[a, b, c][2 := x] = [a, b, x]"
  by (simp add: numeral_2_eq_2)

lemmas eval_defs = sizeof_int_def Slab_CHUNKHDRSZ_def sizeof_MemoryChunk_def MAXALIGN_def
  MAXIMUM_ALIGNOF_def sizeof_SlabBlock_def Size_to_int_def dlist_init_def
  dlist_is_empty_def dlist_push_head_def dlist_head_element_def dlist_delete_def
  freelist_at_def freelist_push_def
  MemoryChunkGetPointer_def PointerGetMemoryChunk_def SlabBlockGetChunk_def SlabBlockStart_def
  SlabChunkIndex_def MemoryChunkSetHdrMask_def MemoryChunkGetBlock_def req_def load_hdr_def
  store_int32_def sys_free_def SlabAlloc_def SlabAlloc_new_block_def SlabAlloc_take_def
  SlabAlloc_update_min_def SlabAlloc_rescan.simps SlabAlloc_init_chunks.simps
  SlabFree_def SlabFree_update_min_def Let_def empty_heap_def SlabContextCreate_def
  chunk_offs_def payload_offs_def replicate3 upd3_1 upd3_2

lemmas ex_defs = ex_slab_def ex_hdr_def ex_block_one_def ex_block_full_def ex_block_freed_def
  ex_h0_def ex_h1_def ex_h2_def ex_h3_def ex_h4_def ex_h5_def ex_h6_def ex_g1_def
  ex_block_refilled_def ex_g2_def

lemma ex_create: "SlabContextCreate empty_heap (Some 7) 80 16 = Inr (7, ex_h0)"
  by (simp add: eval_defs ex_defs)

lemma ex_alloc1: "SlabAlloc ex_h0 7 16 (Some 100) = Inr (Some (Ptr 100 40), ex_h1)"
  by (simp add: eval_defs ex_defs)

lemma ex_alloc2: "SlabAlloc ex_h1 7 16 None = Inr (Some (Ptr 100 64), ex_h2)"
  by (simp add: eval_defs ex_defs)

lemma ex_alloc3: "SlabAlloc ex_h2 7 16 (Some 200) = Inr (Some (Ptr 200 40), ex_h3)"
  by (simp add: eval_defs ex_defs)

lemma ex_alloc4: "SlabAlloc ex_h3 7 16 None = Inr (Some (Ptr 200 64), ex_h4)"
  by (simp add: eval_defs ex_defs)

lemma ex_free1: "SlabFree ex_h4 (Ptr 100 40) = Inr ex_h5"
  by (simp add: eval_defs ex_defs)

lemma ex_alloc5: "SlabAlloc ex_h5 7 16 (Some 300) = Inr (Some (Ptr 300 40), ex_h6)"
  by (simp add: eval_defs ex_defs)

lemma ex_free2: "SlabFree ex_h2 (Ptr 100 40) = Inr ex_g1"
  by (simp add: eval_defs ex_defs)

lemma ex_free3: "SlabFree ex_g1 (Ptr 100 64) = Inr ex_h0"
  by (simp add: eval_defs ex_defs)

lemma ex_alloc6: "SlabAlloc ex_g1 7 16 None = Inr (Some (Ptr 100 40), ex_g2)"
  by (simp add: eval_defs ex_defs)

lemma ex_reset: "SlabReset ex_h4 7 = Inr ex_h0"
  by (simp add: SlabReset_def SlabReset_loop.simps chunksPerBlock_of_def eval_defs ex_defs)


lemma ex_reach0: "reach 7 ex_h0 {}"
  by (rule reach_create [OF ex_create])
     (simp_all add: MAXALIGN_def MAXIMUM_ALIGNOF_def MEMORYCHUNK_MAX_VALUE_def
        chunksPerBlock_of_def ex_defs)

lemma ex_reach1: "reach 7 ex_h1 {Ptr 100 40}"
  using reach_alloc [OF ex_reach0 _ ex_alloc1] by (simp add: ex_h0_def)

lemma ex_reach2: "reach 7 ex_h2 {Ptr 100 64, Ptr 100 40}"
  using reach_alloc [OF ex_reach1 _ ex_alloc2] by simp

lemma ex_reach3: "reach 7 ex_h3 {Ptr 200 40, Ptr 100 64, Ptr 100 40}"
  using reach_alloc [OF ex_reach2 _ ex_alloc3] by (simp add: ex_h2_def)

lemma ex_reach4: "reach 7 ex_h4 {Ptr 200 64, Ptr 200 40, Ptr 100 64, Ptr 100 40}"
  using reach_alloc [OF ex_reach3 _ ex_alloc4] by simp

lemma ex_reach5: "reach 7 ex_h5 {Ptr 200 64, Ptr 200 40, Ptr 100 64}"
proof -
  have "{Ptr 200 64, Ptr 200 40, Ptr 100 64, Ptr 100 40} - {Ptr 100 40} =
        {Ptr 200 64, Ptr 200 40, Ptr 100 64 :: pointer}"
    by auto
  with reach_free [OF ex_reach4 _ ex_free1] show ?thesis by simp
qed

lemma ex_reach_g1: "reach 7 ex_g1 {Ptr 100 64}"
proof -
  have "{Ptr 100 64, Ptr 100 40} - {Ptr 100 40} = {Ptr 100 64 :: pointer}"
    by auto
  with reach_free [OF ex_reach2 _ ex_free2] show ?thesis by simp
qed

lemma ex_ctx:
  "contexts ex_h0 7 = Some (ex_slab 0 0 0 [[], [], []])"
  "contexts ex_h1 7 = Some (ex_slab 80 1 1 [[], [100], []])"
  "contexts ex_h2 7 = Some (ex_slab 80 0 1 [[100], [], []])"
  "contexts ex_h4 7 = Some (ex_slab 160 0 2 [[200, 100], [], []])"
  "contexts ex_h5 7 = Some (ex_slab 160 0 2 [[200], [100], []])"
  "contexts ex_g1 7 = Some (ex_slab 80 1 1 [[], [100], []])"
  by (simp_all add: ex_h0_def ex_h1_def ex_h2_def ex_h4_def ex_h5_def ex_g1_def)

lemma ex_blk:
  "blocks ex_h1 100 = Some (ex_block_one 100)"
  "blocks ex_h2 100 = Some (ex_block_full 100)"
  "blocks ex_g1 100 = Some (ex_block_freed 100)"
  "blocks ex_h0 = Map.empty"
  by (simp_all add: ex_h0_def ex_h1_def ex_h2_def ex_g1_def)

lemma ex_slab_sel [simp]:
  "mem_allocated (ex_slab mem m nb heads) = mem"
  "chunkSize (ex_slab mem m nb heads) = 16"
  "fullChunkSize (ex_slab mem m nb heads) = 24"
  "blockSize (ex_slab mem m nb heads) = 80"
  "chunksPerBlock (ex_slab mem m nb heads) = 2"
  "minFreeChunks (ex_slab mem m nb heads) = m"
  "nblocks (ex_slab mem m nb heads) = nb"
  "freelist (ex_slab mem m nb heads) = heads"
  by (simp_all add: ex_slab_def)

lemma ex_block_sel [simp]:
  "nfree (ex_block_one b) = 1" "firstFreeChunk (ex_block_one b) = 1"
  "nfree (ex_block_full b) = 0" "firstFreeChunk (ex_block_full b) = 2"
  "nfree (ex_block_freed b) = 1" "firstFreeChunk (ex_block_freed b) = 0"
  "block_slab (ex_block_one b) = 7" "block_slab (ex_block_full b) = 7"
  "block_slab (ex_block_freed b) = 7"
  by (simp_all add: ex_block_one_def ex_block_full_def ex_block_freed_def)

section \<open>The properties of the specification\<close>

text \<open>A state of the context at address \<open>c\<close> is \<^emph>\<open>reachable\<close>, \<open>reach c h L\<close>, when a
  successful \<^verbatim>\<open>SlabContextCreate\<close> followed by calls of \<^verbatim>\<open>SlabAlloc\<close>, \<^verbatim>\<open>SlabFree\<close> (of a
  pointer that is live) and \<^verbatim>\<open>SlabReset\<close> leads to the heap \<open>h\<close> with the set \<open>L\<close> of live
  pointers.\<close>

subsection \<open>C1: the cache of the minimum\<close>

text \<open>
  \<^bold>\<open>C1\<close> (min-free cache correctness).  The specification says: after every completed
  operation \<^verbatim>\<open>minFreeChunks\<close> is the smallest non-zero \<open>k\<close> whose list \<^verbatim>\<open>freelist[k]\<close> is not
  empty, or 0 when the lists 1 to \<^verbatim>\<open>chunksPerBlock - 1\<close> are all empty, in particular after
  the free of a chunk of a full block while other full blocks remain in list 0.  The code
  does not do this.  In the run below a context with two chunks per block fills the blocks
  100 and 200, so that \<^verbatim>\<open>minFreeChunks = 0\<close> and both blocks are in list 0.  The free of the
  first chunk of block 100 moves the block to list 1, but the test
  \<^verbatim>\<open>dlist_is_empty(&slab->freelist[slab->minFreeChunks])\<close> of \<^verbatim>\<open>SlabFree\<close> finds block 200 in
  list 0 and leaves \<^verbatim>\<open>minFreeChunks\<close> at 0, where the specification asks for 1.  The next
  \<^verbatim>\<open>SlabAlloc\<close> then takes \<^verbatim>\<open>minFreeChunks == 0\<close> to mean that no block has a free chunk, as
  its comment says, and calls \<^verbatim>\<open>malloc\<close> for block 300 while block 100 has a free chunk.
\<close>

theorem min_free_cache_stale_after_free:
  "SlabContextCreate empty_heap (Some 7) 80 16 = Inr (7, ex_h0) \<and>
   SlabAlloc ex_h0 7 16 (Some 100) = Inr (Some (Ptr 100 40), ex_h1) \<and>
   SlabAlloc ex_h1 7 16 None = Inr (Some (Ptr 100 64), ex_h2) \<and>
   SlabAlloc ex_h2 7 16 (Some 200) = Inr (Some (Ptr 200 40), ex_h3) \<and>
   SlabAlloc ex_h3 7 16 None = Inr (Some (Ptr 200 64), ex_h4) \<and>
   SlabFree ex_h4 (Ptr 100 40) = Inr ex_h5 \<and>
   contexts ex_h5 7 = Some (ex_slab 160 0 2 [[200], [100], []]) \<and>
   minFreeChunks (ex_slab 160 0 2 [[200], [100], []]) = 0 \<and>
   min_free_spec (ex_slab 160 0 2 [[200], [100], []]) = 1 \<and>
   SlabAlloc ex_h5 7 16 (Some 300) = Inr (Some (Ptr 300 40), ex_h6)"
proof -
  have "min_free_spec (ex_slab 160 0 2 [[200], [100], []]) = 1"
    by (simp add: min_free_spec_def ex_slab_def upt_conv_Cons)
  with ex_create ex_alloc1 ex_alloc2 ex_alloc3 ex_alloc4 ex_free1 ex_alloc5 ex_ctx(5)
  show ?thesis by simp
qed

subsection \<open>C2: the lists against the free counts\<close>

text \<open>
  \<^bold>\<open>C2\<close> (bucket consistency).  In every reachable state, every block of the heap belongs
  to the context, its \<^verbatim>\<open>nfree\<close> is an index of \<^verbatim>\<open>freelist\<close>, and the block is in list \<open>k\<close> if and
  only if \<open>k\<close> is its \<^verbatim>\<open>nfree\<close>; no list holds a block twice, and every member of list \<open>k\<close> is
  a block of the heap with \<^verbatim>\<open>nfree = k\<close>.  So every block is linked into exactly one list,
  the one its \<^verbatim>\<open>nfree\<close> names.
\<close>

theorem bucket_consistency:
  assumes "reach c h L" and "contexts h c = Some slab"
  shows "(\<forall>b blk. blocks h b = Some blk \<longrightarrow>
            block_slab blk = c \<and> 0 \<le> nfree blk \<and> nat (nfree blk) < length (freelist slab) \<and>
            (\<forall>k<length (freelist slab). b \<in> set (freelist slab ! k) \<longleftrightarrow> int k = nfree blk)) \<and>
         (\<forall>k<length (freelist slab). distinct (freelist slab ! k) \<and>
            (\<forall>b\<in>set (freelist slab ! k). \<exists>blk. blocks h b = Some blk \<and> nfree blk = int k))"
proof -
  from reach_inv [OF assms(1)] have inv: "slab_inv c h L" .
  from slab_invD(1) [OF inv assms(2)] have wf: "slab_wf slab c h L" .
  note bk = slab_wf_buckets [OF wf] and bi = slab_wf_block_inv [OF wf]
  have 1: "block_slab blk = c \<and> 0 \<le> nfree blk \<and> nat (nfree blk) < length (freelist slab) \<and>
      (\<forall>k<length (freelist slab). b \<in> set (freelist slab ! k) \<longleftrightarrow> int k = nfree blk)"
    if "blocks h b = Some blk" for b blk
  proof -
    from buckets_okD2 [OF bk, of b "nfree blk"] that
    have r: "0 \<le> nfree blk" "nat (nfree blk) < length (freelist slab)"
      "b \<in> set (freelist slab ! nat (nfree blk))" by simp_all
    have "b \<in> set (freelist slab ! k) \<longleftrightarrow> int k = nfree blk" if k: "k < length (freelist slab)" for k
    proof
      assume "b \<in> set (freelist slab ! k)"
      from buckets_okD1 [OF bk k this] \<open>blocks h b = Some blk\<close> show "int k = nfree blk" by simp
    next
      assume "int k = nfree blk"
      then have "nat (nfree blk) = k" by simp
      with r(3) show "b \<in> set (freelist slab ! k)" by simp
    qed
    with r bi [OF that] show ?thesis by (simp add: block_inv_def)
  qed
  have 2: "distinct (freelist slab ! k) \<and>
      (\<forall>b\<in>set (freelist slab ! k). \<exists>blk. blocks h b = Some blk \<and> nfree blk = int k)"
    if "k < length (freelist slab)" for k
    using buckets_ok_distinct [OF bk that] buckets_okD1 [OF bk that]
    by (auto simp: nfree_of_eq_Some)
  from 1 2 show ?thesis by blast
qed

theorem bucket_consistency_witness:
  "reach 7 ex_h1 {Ptr 100 40} \<and>
   contexts ex_h1 7 = Some (ex_slab 80 1 1 [[], [100], []]) \<and>
   blocks ex_h1 100 = Some (ex_block_one 100) \<and>
   block_slab (ex_block_one 100) = 7 \<and>
   nfree (ex_block_one 100) = 1 \<and>
   100 \<in> set (freelist (ex_slab 80 1 1 [[], [100], []]) ! 1) \<and>
   100 \<notin> set (freelist (ex_slab 80 1 1 [[], [100], []]) ! 0) \<and>
   100 \<notin> set (freelist (ex_slab 80 1 1 [[], [100], []]) ! 2) \<and>
   distinct (freelist (ex_slab 80 1 1 [[], [100], []]) ! 1)"
proof -
  note t = bucket_consistency [OF ex_reach1 ex_ctx(2)]
  from t ex_blk(1) have own: "block_slab (ex_block_one 100) = 7"
    and mem: "\<forall>k<length (freelist (ex_slab 80 1 1 [[], [100], []])).
        100 \<in> set (freelist (ex_slab 80 1 1 [[], [100], []]) ! k) \<longleftrightarrow>
        int k = nfree (ex_block_one 100)"
    by blast+
  from t have dis: "\<forall>k<length (freelist (ex_slab 80 1 1 [[], [100], []])).
      distinct (freelist (ex_slab 80 1 1 [[], [100], []]) ! k)"
    by blast
  from mem have "100 \<in> set (freelist (ex_slab 80 1 1 [[], [100], []]) ! 1)"
    and "100 \<notin> set (freelist (ex_slab 80 1 1 [[], [100], []]) ! 0)"
    and "100 \<notin> set (freelist (ex_slab 80 1 1 [[], [100], []]) ! 2)"
    by simp_all
  moreover from dis have "distinct (freelist (ex_slab 80 1 1 [[], [100], []]) ! 1)"
    by simp
  ultimately show ?thesis
    using ex_reach1 ex_ctx(2) ex_blk(1) own by simp
qed

subsection \<open>C3: the free list inside a block\<close>



subsection \<open>C4: a block with no chunk in use is released at once\<close>

text \<open>
  \<^bold>\<open>C4\<close> (eager reclaim).  In every reachable state every block has fewer than
  \<^verbatim>\<open>chunksPerBlock\<close> free chunks.  And when the free of a live pointer raises the \<^verbatim>\<open>nfree\<close> of
  its block to \<^verbatim>\<open>chunksPerBlock\<close>, this call of \<^verbatim>\<open>SlabFree\<close> returns with the block given back
  to the system allocator (it is no longer in the heap, every other block is as before),
  with \<^verbatim>\<open>nblocks\<close> one less and \<^verbatim>\<open>mem_allocated\<close> less by \<^verbatim>\<open>blockSize\<close>.
\<close>

theorem eager_reclaim:
  assumes "reach c h L" and "contexts h c = Some slab"
  shows "(\<forall>b blk. blocks h b = Some blk \<longrightarrow> nfree blk < chunksPerBlock slab) \<and>
         (\<forall>p blk. p \<in> L \<and> blocks h (ptr_base p) = Some blk \<and>
              nfree blk + 1 = chunksPerBlock slab \<longrightarrow>
            (\<exists>h' slab'. SlabFree h p = Inr h' \<and> blocks h' = (blocks h)(ptr_base p := None) \<and>
               contexts h' c = Some slab' \<and> nblocks slab' = nblocks slab - 1 \<and>
               mem_allocated slab' = mem_allocated slab - blockSize slab))"
proof -
  from reach_inv [OF assms(1)] have inv: "slab_inv c h L" .
  have 1: "nfree blk < chunksPerBlock slab" if "blocks h b = Some blk" for b blk
    using slab_invD(2) [OF inv assms(2) that] .
  have 2: "\<exists>h' slab'. SlabFree h p = Inr h' \<and> blocks h' = (blocks h)(ptr_base p := None) \<and>
      contexts h' c = Some slab' \<and> nblocks slab' = nblocks slab - 1 \<and>
      mem_allocated slab' = mem_allocated slab - blockSize slab"
    if p: "p \<in> L" and blk: "blocks h (ptr_base p) = Some blk"
      and full: "nfree blk + 1 = chunksPerBlock slab" for p blk
  proof -
    from SlabFree_inv [OF inv p] assms(2) obtain b blk0 i h' where
      f: "blocks h b = Some blk0" "p = Ptr b (payload_offs (fullChunkSize slab) i)"
        "SlabFree h p = Inr h'" "contexts h' = (contexts h)(c \<mapsto> free_slab slab b blk0)"
        "blocks h' = (if nfree blk0 + 1 = chunksPerBlock slab then (blocks h)(b := None)
                      else (blocks h)(b \<mapsto> free_block (fullChunkSize slab) blk0 i))"
      by auto
    from f(2) have b: "b = ptr_base p" by simp
    with f(1) blk have e: "blk0 = blk" by simp
    have n: "nblocks (free_slab slab b blk) = nblocks slab - 1"
      and m: "mem_allocated (free_slab slab b blk) = mem_allocated slab - blockSize slab"
      using full by (simp_all add: free_slab_def Let_def)
    have hb: "blocks h' = (blocks h)(ptr_base p := None)"
      using f(5) full by (simp add: e b)
    have hc: "contexts h' c = Some (free_slab slab b blk)"
      using f(4) by (simp add: e)
    from f(3) hb hc n m show ?thesis by blast
  qed
  from 1 2 show ?thesis by blast
qed

theorem eager_reclaim_witness:
  "reach 7 ex_g1 {Ptr 100 64} \<and>
   contexts ex_g1 7 = Some (ex_slab 80 1 1 [[], [100], []]) \<and>
   blocks ex_g1 100 = Some (ex_block_freed 100) \<and>
   nfree (ex_block_freed 100) < 2 \<and>
   nfree (ex_block_freed 100) + 1 = 2 \<and>
   SlabFree ex_g1 (Ptr 100 64) = Inr ex_h0 \<and>
   blocks ex_h0 = (blocks ex_g1)(100 := None) \<and>
   (\<exists>slab'. contexts ex_h0 7 = Some slab' \<and> nblocks slab' = 0 \<and> mem_allocated slab' = 0)"
proof -
  note t = eager_reclaim [OF ex_reach_g1 ex_ctx(6)]
  from t ex_blk(3) have lt: "nfree (ex_block_freed 100) < chunksPerBlock (ex_slab 80 1 1 [[], [100], []])"
    by blast
  have pre: "Ptr 100 64 \<in> {Ptr 100 64 :: pointer} \<and>
      blocks ex_g1 (ptr_base (Ptr 100 64)) = Some (ex_block_freed 100) \<and>
      nfree (ex_block_freed 100) + 1 = chunksPerBlock (ex_slab 80 1 1 [[], [100], []])"
    using ex_blk(3) by simp
  from t pre obtain h' slab' where
    r: "SlabFree ex_g1 (Ptr 100 64) = Inr h'"
      "blocks h' = (blocks ex_g1)(ptr_base (Ptr 100 64) := None)"
      "contexts h' 7 = Some slab'"
      "nblocks slab' = nblocks (ex_slab 80 1 1 [[], [100], []]) - 1"
      "mem_allocated slab' =
         mem_allocated (ex_slab 80 1 1 [[], [100], []]) - blockSize (ex_slab 80 1 1 [[], [100], []])"
    by blast
  from r(1) ex_free3 have h': "h' = ex_h0" by simp
  from r(3,4,5) have "\<exists>slab'. contexts ex_h0 7 = Some slab' \<and> nblocks slab' = 0 \<and> mem_allocated slab' = 0"
    unfolding h' by simp
  moreover from r(2) have "blocks ex_h0 = (blocks ex_g1)(100 := None)"
    unfolding h' by simp
  ultimately show ?thesis
    using ex_reach_g1 ex_ctx(6) ex_blk(3) lt ex_free3 by simp
qed

subsection \<open>C5: a request of the wrong size\<close>

text \<open>
  \<^bold>\<open>C5\<close>.  For every heap with a context at \<open>c\<close> and every size \<open>sz\<close> other than the
  \<^verbatim>\<open>chunkSize\<close> the context stores, \<^verbatim>\<open>SlabAlloc\<close> raises the error
  \<open>UnexpectedAllocChunkSize\<close>, whatever \<^verbatim>\<open>malloc\<close> would return, and the heap at the raise
  is the heap of the call: nothing of the context or of a block has changed.
\<close>

theorem alloc_wrong_size:
  assumes "contexts h c = Some slab" and "sz \<noteq> chunkSize slab"
  shows "SlabAlloc h c sz sys = Inl (Raised UnexpectedAllocChunkSize h)"
  using assms by (simp add: SlabAlloc_def)

theorem alloc_wrong_size_witness:
  "contexts ex_h1 7 = Some (ex_slab 80 1 1 [[], [100], []]) \<and>
   8 \<noteq> chunkSize (ex_slab 80 1 1 [[], [100], []]) \<and>
   SlabAlloc ex_h1 7 8 (Some 200) = Inl (Raised UnexpectedAllocChunkSize ex_h1)"
proof -
  have ne: "8 \<noteq> chunkSize (ex_slab 80 1 1 [[], [100], []])"
    by simp
  from alloc_wrong_size [OF ex_ctx(2) ne, of "Some 200"] ne ex_ctx(2)
  show ?thesis by simp
qed

subsection \<open>C6: no memory for a new block\<close>

text \<open>
  \<^bold>\<open>C6\<close>.  When \<^verbatim>\<open>minFreeChunks\<close> is 0 and \<^verbatim>\<open>malloc\<close> returns \<^verbatim>\<open>NULL\<close>, \<^verbatim>\<open>SlabAlloc\<close> of
  \<^verbatim>\<open>chunkSize\<close> returns the null pointer, raises nothing and leaves the heap as it was.
  And this is the only way to a null result: whenever \<^verbatim>\<open>SlabAlloc\<close> returns the null
  pointer, \<^verbatim>\<open>malloc\<close> had returned \<^verbatim>\<open>NULL\<close>, \<^verbatim>\<open>minFreeChunks\<close> was 0, the size was
  \<^verbatim>\<open>chunkSize\<close> and the heap is unchanged.  (\<^verbatim>\<open>SlabAlloc\<close> is the one operation with a result
  that can report a failure; every other failure of the model is a raised error.)
\<close>

theorem alloc_null_only_failure:
  "(contexts h c = Some slab \<and> minFreeChunks slab = 0 \<longrightarrow>
      SlabAlloc h c (chunkSize slab) None = Inr (None, h)) \<and>
   (SlabAlloc h c sz sys = Inr (None, h') \<longrightarrow>
      sys = None \<and> h' = h \<and>
      (\<exists>slab. contexts h c = Some slab \<and> minFreeChunks slab = 0 \<and> sz = chunkSize slab))"
  using SlabAlloc_null [of h c slab] SlabAlloc_null_only [of h c sz sys h'] by blast

theorem alloc_null_only_failure_witness:
  "contexts ex_h2 7 = Some (ex_slab 80 0 1 [[100], [], []]) \<and>
   minFreeChunks (ex_slab 80 0 1 [[100], [], []]) = 0 \<and>
   SlabAlloc ex_h2 7 16 None = Inr (None, ex_h2)"
proof -
  have "minFreeChunks (ex_slab 80 0 1 [[100], [], []]) = 0"
    by simp
  with alloc_null_only_failure [of ex_h2 7 "ex_slab 80 0 1 [[100], [], []]" 16 None ex_h2] ex_ctx(3)
  show ?thesis by simp
qed

subsection \<open>C7: realloc\<close>



subsection \<open>C8: from a chunk back to its context\<close>



subsection \<open>C9: reset\<close>

text \<open>
  \<^bold>\<open>C9\<close>.  From every reachable state \<^verbatim>\<open>SlabReset\<close> returns, and afterwards no block is
  left in the heap (every one was given to \<^verbatim>\<open>free\<close>), the context is still there with
  \<^verbatim>\<open>minFreeChunks\<close>, \<^verbatim>\<open>nblocks\<close> and \<^verbatim>\<open>mem_allocated\<close> all 0, \<^verbatim>\<open>SlabIsEmpty\<close> returns true and
  every list of \<^verbatim>\<open>freelist\<close> is empty.  The state is again a reachable one with no live
  pointer, and an allocation of \<^verbatim>\<open>chunkSize\<close> succeeds in it whenever \<^verbatim>\<open>malloc\<close> returns a
  block.
\<close>

theorem reset_releases_everything:
  assumes "reach c h L"
  shows "\<exists>h' slab'. SlabReset h c = Inr h' \<and> blocks h' = Map.empty \<and>
           contexts h' c = Some slab' \<and>
           minFreeChunks slab' = 0 \<and> nblocks slab' = 0 \<and> mem_allocated slab' = 0 \<and>
           SlabIsEmpty h' c = Inr True \<and>
           (\<forall>head\<in>set (freelist slab'). head = []) \<and>
           reach c h' {} \<and>
           (\<forall>a. \<exists>p h''. SlabAlloc h' c (chunkSize slab') (Some a) = Inr (Some p, h''))"
proof -
  from reach_inv [OF assms] have inv: "slab_inv c h L" .
  from slab_inv_ctx [OF inv] obtain slab where ctx: "contexts h c = Some slab" ..
  from SlabReset_inv [OF inv ctx] obtain h' slab' where
    r: "SlabReset h c = Inr h'" "blocks h' = Map.empty" "contexts h' c = Some slab'"
      "minFreeChunks slab' = 0" "nblocks slab' = 0" "mem_allocated slab' = 0"
      "freelist slab' = replicate (nat (chunksPerBlock slab) + 1) []"
      "slab_inv c h' {}"
    by blast
  have e: "SlabIsEmpty h' c = Inr True"
    using r(3,5) by (simp add: SlabIsEmpty_def)
  have f: "\<forall>head\<in>set (freelist slab'). head = []"
    by (simp add: r(7))
  have re: "reach c h' {}"
    using assms r(1) by (rule reach_reset)
  have "\<exists>p h''. SlabAlloc h' c (chunkSize slab') (Some a) = Inr (Some p, h'')" for a
    using SlabAlloc_inv [OF r(8) r(3), of "Some a"] by (auto simp: r(2))
  with r e f re show ?thesis by blast
qed

theorem reset_releases_everything_witness:
  "reach 7 ex_h4 {Ptr 200 64, Ptr 200 40, Ptr 100 64, Ptr 100 40} \<and>
   SlabReset ex_h4 7 = Inr ex_h0 \<and>
   blocks ex_h0 = Map.empty \<and>
   contexts ex_h0 7 = Some (ex_slab 0 0 0 [[], [], []]) \<and>
   SlabIsEmpty ex_h0 7 = Inr True \<and>
   reach 7 ex_h0 {} \<and>
   SlabAlloc ex_h0 7 16 (Some 100) = Inr (Some (Ptr 100 40), ex_h1)"
proof -
  from reset_releases_everything [OF ex_reach4] obtain h' slab' where
    r: "SlabReset ex_h4 7 = Inr h'" "blocks h' = Map.empty" "contexts h' 7 = Some slab'"
      "SlabIsEmpty h' 7 = Inr True" "reach 7 h' {}"
    by blast
  from r(1) ex_reset have h': "h' = ex_h0" by simp
  from r(2,4,5) ex_reach4 ex_reset ex_ctx(1) ex_alloc1 show ?thesis
    unfolding h' by simp
qed

subsection \<open>C10: the order in which chunks are handed out\<close>

text \<open>
  \<^bold>\<open>C10\<close> (deterministic, last-in first-out reuse).  In every reachable state:

  \<^item> When \<^verbatim>\<open>minFreeChunks\<close> is 0, so that the next allocation takes a new block from
    \<^verbatim>\<open>malloc\<close>, and \<^verbatim>\<open>malloc\<close> returns the new block \<open>a\<close>, then \<^verbatim>\<open>chunksPerBlock\<close> allocations
    in a row return the chunks 0, 1, ..., \<^verbatim>\<open>chunksPerBlock - 1\<close> of the block \<open>a\<close>, in this
    order.
  \<^item> The free of a live pointer \<open>p\<close>, the chunk \<open>i\<close> of its block, returns.  The block is
    then gone from the heap exactly when this free made all its chunks free (C4); there
    is then no block left to draw from.  Otherwise the \<^verbatim>\<open>firstFreeChunk\<close> of the block is
    \<open>i\<close>, and after any number of allocations from other blocks and frees of chunks of
    other blocks, an allocation that returns a chunk of this block returns \<open>p\<close>.
\<close>

theorem lifo_chunk_reuse:
  assumes "reach c h L" and "contexts h c = Some slab"
  shows "(minFreeChunks slab = 0 \<and> a \<notin> dom (blocks h) \<and>
            length syss + 1 = nat (chunksPerBlock slab) \<longrightarrow>
            (\<exists>h'. SlabAlloc_seq h c (chunkSize slab) (Some a # syss) =
               Inr (map (\<lambda>k. Some (MemoryChunkGetPointer (SlabBlockGetChunk slab a k)))
                      [0..chunksPerBlock slab - 1], h'))) \<and>
         (p \<in> L \<longrightarrow>
            (\<exists>h1 i blk. SlabFree h p = Inr h1 \<and> blocks h (ptr_base p) = Some blk \<and>
               p = MemoryChunkGetPointer (SlabBlockGetChunk slab (ptr_base p) i) \<and>
               0 \<le> i \<and> i < chunksPerBlock slab \<and>
               (blocks h1 (ptr_base p) = None \<longleftrightarrow> nfree blk + 1 = chunksPerBlock slab) \<and>
               (\<forall>blk'. blocks h1 (ptr_base p) = Some blk' \<longrightarrow>
                  firstFreeChunk blk' = i \<and>
                  (\<forall>h2 L2 sz sys q h3.
                     idle c (ptr_base p) h1 (L - {p}) h2 L2 \<and>
                     sys \<notin> Some ` dom (blocks h2) \<and>
                     SlabAlloc h2 c sz sys = Inr (Some q, h3) \<and> ptr_base q = ptr_base p \<longrightarrow>
                     q = p))))"
proof -
  from reach_inv [OF assms(1)] have inv: "slab_inv c h L" .
  have 1: "\<exists>h'. SlabAlloc_seq h c (chunkSize slab) (Some a # syss) =
      Inr (map (\<lambda>k. Some (MemoryChunkGetPointer (SlabBlockGetChunk slab a k)))
             [0..chunksPerBlock slab - 1], h')"
    if "minFreeChunks slab = 0" "a \<notin> dom (blocks h)"
      "length syss + 1 = nat (chunksPerBlock slab)"
    using fresh_block_seq [OF inv assms(2) that] by simp
  have 2: "\<exists>h1 i blk. SlabFree h p = Inr h1 \<and> blocks h (ptr_base p) = Some blk \<and>
      p = MemoryChunkGetPointer (SlabBlockGetChunk slab (ptr_base p) i) \<and>
      0 \<le> i \<and> i < chunksPerBlock slab \<and>
      (blocks h1 (ptr_base p) = None \<longleftrightarrow> nfree blk + 1 = chunksPerBlock slab) \<and>
      (\<forall>blk'. blocks h1 (ptr_base p) = Some blk' \<longrightarrow>
         firstFreeChunk blk' = i \<and>
         (\<forall>h2 L2 sz sys q h3.
            idle c (ptr_base p) h1 (L - {p}) h2 L2 \<and>
            sys \<notin> Some ` dom (blocks h2) \<and>
            SlabAlloc h2 c sz sys = Inr (Some q, h3) \<and> ptr_base q = ptr_base p \<longrightarrow>
            q = p))"
    if "p \<in> L"
    using lifo_reuse [OF inv assms(2) that] by simp
  show ?thesis
    apply (intro conjI impI)
     apply (elim conjE)
     apply (rule 1; assumption)
    apply (rule 2; assumption)
    done
qed

theorem lifo_chunk_reuse_witness:
  "reach 7 ex_h0 {} \<and>
   SlabAlloc_seq ex_h0 7 16 [Some 100, None] = Inr ([Some (Ptr 100 40), Some (Ptr 100 64)], ex_h2) \<and>
   MemoryChunkGetPointer (SlabBlockGetChunk (ex_slab 0 0 0 [[], [], []]) 100 0) = Ptr 100 40 \<and>
   MemoryChunkGetPointer (SlabBlockGetChunk (ex_slab 0 0 0 [[], [], []]) 100 1) = Ptr 100 64 \<and>
   reach 7 ex_h2 {Ptr 100 64, Ptr 100 40} \<and>
   SlabFree ex_h2 (Ptr 100 40) = Inr ex_g1 \<and>
   blocks ex_g1 100 = Some (ex_block_freed 100) \<and>
   firstFreeChunk (ex_block_freed 100) = 0 \<and>
   idle 7 100 ex_g1 {Ptr 100 64} ex_g1 {Ptr 100 64} \<and>
   SlabAlloc ex_g1 7 16 None = Inr (Some (Ptr 100 40), ex_g2)"
proof -
  have seq: "SlabAlloc_seq ex_h0 7 16 [Some 100, None] =
      Inr ([Some (Ptr 100 40), Some (Ptr 100 64)], ex_h2)"
    by (simp add: ex_alloc1 ex_alloc2)
  have chunks: "MemoryChunkGetPointer (SlabBlockGetChunk (ex_slab 0 0 0 [[], [], []]) 100 0) = Ptr 100 40"
    "MemoryChunkGetPointer (SlabBlockGetChunk (ex_slab 0 0 0 [[], [], []]) 100 1) = Ptr 100 64"
    by (simp_all add: chunk_offs_def payload_offs_def MemoryChunkGetPointer_def sizeof_SlabBlock_def
        sizeof_MemoryChunk_def)
  have pre: "minFreeChunks (ex_slab 0 0 0 [[], [], []]) = 0 \<and> 100 \<notin> dom (blocks ex_h0) \<and>
      length [None :: nat option] + 1 = nat (chunksPerBlock (ex_slab 0 0 0 [[], [], []]))"
    by (simp add: ex_blk(4))
  from lifo_chunk_reuse [OF ex_reach0 ex_ctx(1), of 100 "[None]"] pre
  obtain h' where fill: "SlabAlloc_seq ex_h0 7 (chunkSize (ex_slab 0 0 0 [[], [], []])) [Some 100, None] =
      Inr (map (\<lambda>k. Some (MemoryChunkGetPointer (SlabBlockGetChunk (ex_slab 0 0 0 [[], [], []]) 100 k)))
             [0..chunksPerBlock (ex_slab 0 0 0 [[], [], []]) - 1], h')"
    by blast
  have p: "Ptr 100 40 \<in> {Ptr 100 64, Ptr 100 40 :: pointer}" by simp
  have diff: "{Ptr 100 64, Ptr 100 40} - {Ptr 100 40} = {Ptr 100 64 :: pointer}" by auto
  from lifo_chunk_reuse [OF ex_reach2 ex_ctx(3), of _ _ "Ptr 100 40"] p
  obtain h1 i blk where
    f: "SlabFree ex_h2 (Ptr 100 40) = Inr h1"
      "\<forall>blk'. blocks h1 (ptr_base (Ptr 100 40)) = Some blk' \<longrightarrow>
         firstFreeChunk blk' = i \<and>
         (\<forall>h2 L2 sz sys q h3.
            idle 7 (ptr_base (Ptr 100 40)) h1 ({Ptr 100 64, Ptr 100 40} - {Ptr 100 40}) h2 L2 \<and>
            sys \<notin> Some ` dom (blocks h2) \<and>
            SlabAlloc h2 7 sz sys = Inr (Some q, h3) \<and> ptr_base q = ptr_base (Ptr 100 40) \<longrightarrow>
            q = Ptr 100 40)"
    by blast
  from f(1) ex_free2 have h1: "h1 = ex_g1" by simp
  have id: "idle 7 100 ex_g1 {Ptr 100 64} ex_g1 {Ptr 100 64}"
    by (rule idle_refl)
  from fill f(1) ex_reach0 seq chunks ex_reach2 ex_free2 ex_blk(3) id ex_alloc6
  show ?thesis by simp
qed

end
